(* ===== verification/Prelude.thy ===== *)
theory Prelude
  imports Main "HOL-Library.Word"
begin

text \<open>
  Shared vocabulary of the development: the Go integer types the balancer uses, the result of
  a Go call (a value or a run-time panic), the theorem collections the component theories fill,
  and generic facts on lists and machine words that several components share.
\<close>

section \<open>Go types\<close>

type_synonym u8 = "8 word"
type_synonym u32 = "32 word"
type_synonym u64 = "64 word"
type_synonym i32 = "32 word" \<comment> \<open>two's complement: read with \<open>sint\<close>\<close>

text \<open>The run-time panics that the modelled code can raise.\<close>

datatype go_panic =
    NilDereference
  | IntegerDivideByZero
  | InvalidArgument string
  | AbortHandler

text \<open>The outcome of a Go call: it panics, or it returns.\<close>

datatype 'a go = Panic go_panic | Ret 'a

fun go_bind :: "'a go \<Rightarrow> ('a \<Rightarrow> 'b go) \<Rightarrow> 'b go" where
  "go_bind (Panic p) f = Panic p"
| "go_bind (Ret x) f = f x"

lemma go_bind_Ret [simp]: "go_bind m Ret = m"
  by (cases m) simp_all

lemma go_bind_eq_Ret [simp]: "go_bind m f = Ret y \<longleftrightarrow> (\<exists>x. m = Ret x \<and> f x = Ret y)"
  by (cases m) simp_all

lemma go_bind_assoc: "go_bind (go_bind m f) g = go_bind m (\<lambda>x. go_bind (f x) g)"
  by (cases m) simp_all

section \<open>Theorem collections\<close>

named_theorems mem_simps \<open>characteristic equations of the slice and heap operations\<close>
named_theorems reg_simps \<open>characteristic equations of the registry operations\<close>
named_theorems sel_simps \<open>characteristic equations of the selectors\<close>

section \<open>Lists\<close>

text \<open>The first position whose element satisfies \<open>p\<close>, as \<open>slices.IndexFunc\<close> finds it.\<close>

fun index_func :: "('a \<Rightarrow> bool) \<Rightarrow> 'a list \<Rightarrow> nat option" where
  "index_func p [] = None"
| "index_func p (x # xs) = (if p x then Some 0 else map_option Suc (index_func p xs))"

lemma index_func_None [simp]: "index_func p xs = None \<longleftrightarrow> (\<forall>x\<in>set xs. \<not> p x)"
  by (induction xs) auto

lemma index_func_SomeD:
  "index_func p xs = Some i \<Longrightarrow> i < length xs \<and> p (xs ! i) \<and> (\<forall>j<i. \<not> p (xs ! j))"
proof (induction xs arbitrary: i)
  case Nil
  then show ?case by simp
next
  case (Cons x xs)
  show ?case
  proof (cases "p x")
    case True
    with Cons.prems show ?thesis by simp
  next
    case False
    with Cons.prems obtain k where k: "index_func p xs = Some k" and i: "i = Suc k" by auto
    from Cons.IH [OF k] False i show ?thesis
      by (auto simp: less_Suc_eq_0_disj nth_Cons split: nat.splits)
  qed
qed

lemma index_func_filter_take:
  assumes "index_func p xs = Some i"
  shows "filter (\<lambda>x. \<not> p x) (take i xs) = take i xs"
  using index_func_SomeD [OF assms] by (auto simp: filter_id_conv in_set_conv_nth)

lemma list_ex_eq_bex: "list_ex P xs \<longleftrightarrow> (\<exists>x\<in>set xs. P x)"
  by (induction xs) auto

lemma map_fun_upd_notin [simp]: "p \<notin> set ps \<Longrightarrow> map (f(p := y)) ps = map f ps"
  by (induction ps) auto

lemma map_fun_upd_distinct:
  "distinct ps \<Longrightarrow> i < length ps \<Longrightarrow> map (f(ps ! i := y)) ps = (map f ps)[i := y]"
proof (induction ps arbitrary: i)
  case Nil
  then show ?case by simp
next
  case (Cons p ps)
  then show ?case by (cases i) auto
qed

lemma sum_list_member_le_nat: "(x::nat) \<in> set xs \<Longrightarrow> x \<le> sum_list xs"
  by (induction xs) auto

lemma disjoint_subset_Un: "X \<subseteq> Y \<union> Z \<Longrightarrow> U \<inter> Z = {} \<Longrightarrow> U \<inter> Y = {} \<Longrightarrow> U \<inter> X = {}"
  by blast

section \<open>Machine words\<close>

lemma unat_sum_list_no_wrap:
  fixes ws :: "'a::len word list"
  assumes "sum_list (map unat ws) < 2 ^ LENGTH('a)"
  shows "unat (sum_list ws) = sum_list (map unat ws)"
  using assms
proof (induction ws)
  case Nil
  then show ?case by simp
next
  case (Cons w ws)
  then have "unat (sum_list ws) = sum_list (map unat ws)" by simp
  with Cons.prems show ?case
    by (simp add: unat_word_ariths)
qed

lemma unat_bound: "unat (x :: 'a::len word) < 2 ^ LENGTH('a)"
  by (rule unsigned_less)

lemma unat_ucast_u64: "unat (ucast (x :: u32) :: u64) = unat x"
proof -
  have "unat x < 2 ^ 64" using unat_bound [of x] by simp
  then show ?thesis by (simp add: unsigned_ucast_eq take_bit_nat_eq_self)
qed

end
