(* ===== verification/GoUrl.thy ===== *)
theory GoUrl
  imports Prelude
begin

text \<open>
  The part of Go's \<open>net/url\<close> that the balancer observes of a parsed URL: the struct \<open>url.URL\<close>
  with all its fields, \<open>String\<close> (the identity of a backend in the registry is the equality of
  these strings) and what \<open>String\<close> needs of escaping.  Strings are byte sequences, as in Go.
  Parsing stays a parameter of the definitions that parse (its accepted set differs between Go
  releases); nothing here depends on it.
\<close>

section \<open>The URL structure\<close>

record userinfo =
  ui_username :: string
  ui_password :: string
  ui_passwordSet :: bool

record url =
  url_Scheme :: string
  url_Opaque :: string
  url_User :: "userinfo option"
  url_Host :: string
  url_Path :: string
  url_RawPath :: string
  url_OmitHost :: bool
  url_ForceQuery :: bool
  url_RawQuery :: string
  url_Fragment :: string
  url_RawFragment :: string

text \<open>The zero value, and the URL of a scheme, a host and a path: what most callers need.\<close>

definition zero_url :: url where
  "zero_url = \<lparr>url_Scheme = [], url_Opaque = [], url_User = None, url_Host = [], url_Path = [],
     url_RawPath = [], url_OmitHost = False, url_ForceQuery = False, url_RawQuery = [],
     url_Fragment = [], url_RawFragment = []\<rparr>"

definition mk_url :: "string \<Rightarrow> string \<Rightarrow> string \<Rightarrow> url" where
  "mk_url sch h p = zero_url\<lparr>url_Scheme := sch, url_Host := h, url_Path := p\<rparr>"

section \<open>Escaping\<close>

datatype encoding = EncodePath | EncodeHost | EncodeUserPassword | EncodeFragment

definition code_in :: "nat \<Rightarrow> nat \<Rightarrow> char \<Rightarrow> bool" where
  "code_in lo hi c \<longleftrightarrow> lo \<le> of_char c \<and> (of_char c :: nat) \<le> hi"

definition is_alnum :: "char \<Rightarrow> bool" where
  "is_alnum c \<longleftrightarrow> code_in 97 122 c \<or> code_in 65 90 c \<or> code_in 48 57 c"

definition shouldEscape :: "char \<Rightarrow> encoding \<Rightarrow> bool" where
  "shouldEscape c mode =
     (if is_alnum c then False
      else if mode = EncodeHost \<and> c \<in> set ''!$&()*+,;=:[]<>'' \<union> {CHR 0x27, CHR 0x22} then False
      else if c \<in> set ''-_.~'' then False
      else if c \<in> set ''$&+,/:;=?@'' then
        (case mode of
           EncodePath \<Rightarrow> c = CHR ''?''
         | EncodeUserPassword \<Rightarrow> c \<in> set ''@/?:''
         | EncodeFragment \<Rightarrow> False
         | EncodeHost \<Rightarrow> True)
      else if mode = EncodeFragment \<and> c \<in> set ''!()*'' then False
      else True)"

definition upperhex :: "nat \<Rightarrow> char" where
  "upperhex n = ''0123456789ABCDEF'' ! (n mod 16)"

definition escape_char :: "encoding \<Rightarrow> char \<Rightarrow> string" where
  "escape_char mode c =
     (if shouldEscape c mode
      then [CHR 0x25, upperhex (of_char c div 16), upperhex (of_char c mod 16)] else [c])"

definition escape :: "string \<Rightarrow> encoding \<Rightarrow> string" where
  "escape s mode = concat (map (escape_char mode) s)"

definition hex_value :: "char \<Rightarrow> nat option" where
  "hex_value c =
     (if code_in 48 57 c then Some (of_char c - 48)
      else if code_in 97 102 c then Some (of_char c - 87)
      else if code_in 65 70 c then Some (of_char c - 55) else None)"

text \<open>Percent decoding of a path or a fragment; \<open>None\<close> on a malformed escape.\<close>

fun unescape :: "string \<Rightarrow> string option" where
  "unescape [] = Some []"
| "unescape (c # cs) =
     (if c = CHR 0x25
      then (case cs of
              a # b # rest \<Rightarrow>
                (case (hex_value a, hex_value b) of
                   (Some x, Some y) \<Rightarrow> map_option ((#) (char_of (16 * x + y))) (unescape rest)
                 | _ \<Rightarrow> None)
            | _ \<Rightarrow> None)
      else map_option ((#) c) (unescape cs))"

definition validEncoded :: "string \<Rightarrow> encoding \<Rightarrow> bool" where
  "validEncoded s mode \<longleftrightarrow>
     list_all (\<lambda>c. c \<in> set ''!$&()*+,;=:@[]'' \<union> {CHR 0x27, CHR 0x25} \<or> \<not> shouldEscape c mode) s"

definition EscapedPath :: "url \<Rightarrow> string" where
  "EscapedPath u =
     (if url_RawPath u \<noteq> [] \<and> validEncoded (url_RawPath u) EncodePath \<and>
         unescape (url_RawPath u) = Some (url_Path u) then url_RawPath u
      else if url_Path u = ''*'' then ''*''
      else escape (url_Path u) EncodePath)"

definition EscapedFragment :: "url \<Rightarrow> string" where
  "EscapedFragment u =
     (if url_RawFragment u \<noteq> [] \<and> validEncoded (url_RawFragment u) EncodeFragment \<and>
         unescape (url_RawFragment u) = Some (url_Fragment u) then url_RawFragment u
      else escape (url_Fragment u) EncodeFragment)"

section \<open>Rendering\<close>

definition userinfo_String :: "userinfo \<Rightarrow> string" where
  "userinfo_String i =
     escape (ui_username i) EncodeUserPassword @
     (if ui_passwordSet i then CHR '':'' # escape (ui_password i) EncodeUserPassword else [])"

text \<open>The scheme and the authority.\<close>

definition url_prefix :: "url \<Rightarrow> string" where
  "url_prefix u =
     (if url_Scheme u \<noteq> [] then url_Scheme u @ '':'' else []) @
     (if url_Opaque u \<noteq> [] then []
      else if (url_Scheme u \<noteq> [] \<or> url_Host u \<noteq> [] \<or> url_User u \<noteq> None) \<and>
              \<not> (url_OmitHost u \<and> url_Host u = [] \<and> url_User u = None)
      then (if url_Host u \<noteq> [] \<or> url_Path u \<noteq> [] \<or> url_User u \<noteq> None then ''//'' else []) @
           (case url_User u of None \<Rightarrow> [] | Some i \<Rightarrow> userinfo_String i @ ''@'') @
           (if url_Host u \<noteq> [] then escape (url_Host u) EncodeHost else [])
      else [])"

definition url_String :: "url \<Rightarrow> string" where
  "url_String u =
     (let pre = url_prefix u; path = EscapedPath u;
          slash = (if path \<noteq> [] \<and> hd path \<noteq> CHR ''/'' \<and> url_Host u \<noteq> [] then ''/'' else []);
          dot = (if pre @ slash = [] \<and> CHR '':'' \<in> set (takeWhile (\<lambda>c. c \<noteq> CHR ''/'') path)
                 then ''./'' else [])
      in pre @ (if url_Opaque u \<noteq> [] then url_Opaque u else slash @ dot @ path) @
         (if url_ForceQuery u \<or> url_RawQuery u \<noteq> [] then ''?'' @ url_RawQuery u else []) @
         (if url_Fragment u \<noteq> [] then ''#'' @ EscapedFragment u else []))"

end
