(* ===== verification/Domain.thy ===== *)
theory Domain
  imports GoUrl
begin

text \<open>
  The package \<open>internal/domain\<close> (backend.go): the \<open>Backend\<close> structure every component shares
  through pointers, its constructor, its health accessors and its JSON form.  The identifier
  that \<open>uuid.New\<close> would generate is an argument of the constructor: the package is third-party
  code, of which the program relies only on identifiers being unused so far.
\<close>

section \<open>The backend\<close>

definition MaxWeight :: u64 where
  "MaxWeight = 1000000"

record backend =
  InstanceID :: string
  URL :: "url option" \<comment> \<open>a pointer: \<open>None\<close> is nil\<close>
  healthy :: bool
  ActiveConnectionsNo :: i32
  Weight :: u64

definition NewBackend :: "string \<Rightarrow> url option \<Rightarrow> u64 \<Rightarrow> backend" where
  "NewBackend uid u w = \<lparr>InstanceID = uid, URL = u, healthy = False, ActiveConnectionsNo = 0,
     Weight = w\<rparr>"

definition Healthy :: "backend \<Rightarrow> bool" where
  "Healthy b = healthy b"

definition backend_SetHealthy :: "backend \<Rightarrow> bool \<Rightarrow> backend" where
  "backend_SetHealthy b v = b\<lparr>healthy := v\<rparr>"

lemma backend_SetHealthy_simps [simp]:
  "InstanceID (backend_SetHealthy b v) = InstanceID b"
  "URL (backend_SetHealthy b v) = URL b"
  "Weight (backend_SetHealthy b v) = Weight b"
  "ActiveConnectionsNo (backend_SetHealthy b v) = ActiveConnectionsNo b"
  "Healthy (backend_SetHealthy b v) = v"
  "healthy (backend_SetHealthy b v) = v"
  by (simp_all add: backend_SetHealthy_def Healthy_def)

lemma NewBackend_simps [simp]:
  "InstanceID (NewBackend uid u w) = uid"
  "URL (NewBackend uid u w) = u"
  "Weight (NewBackend uid u w) = w"
  "healthy (NewBackend uid u w) = False"
  "Healthy (NewBackend uid u w) = False"
  "ActiveConnectionsNo (NewBackend uid u w) = 0"
  by (simp_all add: NewBackend_def Healthy_def)

text \<open>\<open>u.String()\<close> on a pointer: dereferencing nil panics.\<close>

definition url_ptr_String :: "url option \<Rightarrow> string go" where
  "url_ptr_String p = (case p of None \<Rightarrow> Panic NilDereference | Some u \<Rightarrow> Ret (url_String u))"

section \<open>JSON\<close>

datatype json =
    JString string
  | JNumber int
  | JBool bool
  | JNull
  | JFraction string \<comment> \<open>a number literal that is not an integer\<close>
  | JArray "json list"
  | JObject "(string \<times> json) list"

definition MarshalJSON :: "backend \<Rightarrow> json" where
  "MarshalJSON b =
     (let u = (case URL b of None \<Rightarrow> [] | Some v \<Rightarrow> url_String v)
      in JObject [(''instanceID'', JString (InstanceID b)), (''url'', JString u),
                  (''healthy'', JBool (healthy b))])"

section \<open>Well-formed weights\<close>

text \<open>
  The weights the configuration and the management API let through: the selectors rely on them
  for a total that is neither zero nor wrapped.
\<close>

definition weight_ok :: "backend \<Rightarrow> bool" where
  "weight_ok b \<longleftrightarrow> 1 \<le> unat (Weight b) \<and> unat (Weight b) \<le> 1000000"

lemma weight_ok_SetHealthy [simp]: "weight_ok (backend_SetHealthy b v) = weight_ok b"
  by (simp add: weight_ok_def)

lemma weight_ok_word: "weight_ok b \<longleftrightarrow> Weight b \<noteq> 0 \<and> Weight b \<le> MaxWeight"
  by (auto simp: weight_ok_def MaxWeight_def word_le_nat_alt unat_eq_0 Suc_le_eq unat_gt_0)

end
