(* ===== verification/HttpTypes.thy ===== *)
theory HttpTypes
  imports GoUrl Domain
begin

text \<open>
  The HTTP vocabulary of the handlers, the middleware and the proxy: header maps with canonical
  keys and the operations on them, request bodies as readers that are consumed, requests and
  responses.  A header map is a partial function from keys to value lists, as \<open>http.Header\<close> is.
\<close>

section \<open>Headers\<close>

type_synonym header = "string \<rightharpoonup> string list"

definition header_Values :: "header \<Rightarrow> string \<Rightarrow> string list" where
  "header_Values h k = (case h k of None \<Rightarrow> [] | Some vs \<Rightarrow> vs)"

definition header_Get :: "header \<Rightarrow> string \<Rightarrow> string" where
  "header_Get h k = (case header_Values h k of [] \<Rightarrow> [] | v # _ \<Rightarrow> v)"

definition header_Set :: "header \<Rightarrow> string \<Rightarrow> string \<Rightarrow> header" where
  "header_Set h k v = h(k \<mapsto> [v])"

definition header_Del :: "header \<Rightarrow> string \<Rightarrow> header" where
  "header_Del h k = h(k := None)"

lemma header_simps [simp]:
  "header_Get (header_Set h k v) k = v"
  "k \<noteq> k' \<Longrightarrow> header_Get (header_Set h k v) k' = header_Get h k'"
  "header_Values (header_Set h k v) k = [v]"
  "k \<noteq> k' \<Longrightarrow> header_Values (header_Set h k v) k' = header_Values h k'"
  "header_Values (header_Del h k) k = []"
  "k \<noteq> k' \<Longrightarrow> header_Values (header_Del h k) k' = header_Values h k'"
  by (simp_all add: header_Get_def header_Values_def header_Set_def header_Del_def)

section \<open>Bodies\<close>

text \<open>What is left to read, and the error reading ends with, if any.\<close>

datatype reader = Reader string "string option"

fun ReadAll :: "reader \<Rightarrow> string + string" where
  "ReadAll (Reader s None) = Inr s"
| "ReadAll (Reader s (Some err)) = Inl err"

section \<open>Requests and responses\<close>

record request =
  Method :: string
  ReqURL :: url
  ReqHost :: string
  ReqTLS :: bool
  RemoteAddr :: string
  Header :: header
  Body :: "reader option" \<comment> \<open>\<open>None\<close> is a nil body\<close>
  GetBody :: "(string + string) option" \<comment> \<open>what the function returns, if it is set\<close>
  Pattern :: string \<comment> \<open>set by the mux when it routes the request\<close>
  PathInstanceID :: string \<comment> \<open>the wildcard of the matched pattern\<close>

datatype payload = Text string | Json json | Raw string

record response =
  Status :: nat
  RespHeader :: header
  RespBody :: payload

text \<open>\<open>http.Error\<close>: a plain-text error, on a line of its own.\<close>

definition http_Error :: "string \<Rightarrow> nat \<Rightarrow> response" where
  "http_Error msg code =
     \<lparr>Status = code,
      RespHeader = [''Content-Type'' \<mapsto> [''text/plain; charset=utf-8''], ''X-Content-Type-Options'' \<mapsto> [''nosniff'']],
      RespBody = Text (msg @ [CHR 0x0A])\<rparr>"

definition json_response :: "nat \<Rightarrow> json \<Rightarrow> response" where
  "json_response code v =
     \<lparr>Status = code, RespHeader = [''Content-Type'' \<mapsto> [''application/json'']], RespBody = Json v\<rparr>"

lemma response_simps [simp]:
  "Status (http_Error msg code) = code"
  "Status (json_response code v) = code"
  "RespBody (json_response code v) = Json v"
  by (simp_all add: http_Error_def json_response_def)

end
