(* ===== verification/Netip.thy ===== *)
theory Netip
  imports GoUrl
begin

text \<open>
  The parts of Go's \<open>net/netip\<close>, \<open>net\<close> and \<open>strings\<close> the proxy uses: addresses with their
  parser and printer, prefixes, \<open>net.SplitHostPort\<close>, \<open>strings.Split\<close> and \<open>strings.TrimSpace\<close> (for
  ASCII white space).  They are written after the library's documented behaviour and its loops,
  so that the theorems about client addresses speak of the strings that arrive in requests.
\<close>

unbundle bit_operations_syntax

section \<open>Strings\<close>

fun split_on :: "char \<Rightarrow> string \<Rightarrow> string list" where
  "split_on d [] = [[]]"
| "split_on d (c # cs) =
     (if c = d then [] # split_on d cs
      else case split_on d cs of [] \<Rightarrow> [[c]] | f # fs \<Rightarrow> (c # f) # fs)"

definition is_space :: "char \<Rightarrow> bool" where
  "is_space c \<longleftrightarrow> code_in 9 13 c \<or> c = CHR '' ''"

definition TrimSpace :: "string \<Rightarrow> string" where
  "TrimSpace s = rev (dropWhile is_space (rev (dropWhile is_space s)))"

definition join_with :: "string \<Rightarrow> string list \<Rightarrow> string" where
  "join_with sep xs = concat (case xs of [] \<Rightarrow> [] | y # ys \<Rightarrow> y # map (\<lambda>z. sep @ z) ys)"

definition digit_value :: "char \<Rightarrow> nat option" where
  "digit_value c = (if code_in 48 57 c then Some (of_char c - 48) else None)"

definition hex_digit :: "nat \<Rightarrow> char" where
  "hex_digit n = ''0123456789abcdef'' ! (n mod 16)"

fun dec :: "nat \<Rightarrow> string" where
  "dec n = (if n < 10 then [hex_digit n] else dec (n div 10) @ [hex_digit (n mod 10)])"

fun hex :: "nat \<Rightarrow> string" where
  "hex n = (if n < 16 then [hex_digit n] else hex (n div 16) @ [hex_digit (n mod 16)])"

declare dec.simps [simp del] hex.simps [simp del]

text \<open>The host and the port of a \<open>host:port\<close> string; \<open>None\<close> where Go returns an error.\<close>

definition last_index :: "char \<Rightarrow> string \<Rightarrow> nat option" where
  "last_index c s = map_option (\<lambda>i. length s - 1 - i) (index_func ((=) c) (rev s))"

definition SplitHostPort :: "string \<Rightarrow> (string \<times> string) option" where
  "SplitHostPort hp =
     (case last_index CHR '':'' hp of
        None \<Rightarrow> None
      | Some i \<Rightarrow>
          if hd hp = CHR ''['' then
            (case index_func ((=) CHR '']'') hp of
               None \<Rightarrow> None
             | Some e \<Rightarrow>
                 if e + 1 = i \<and> CHR ''['' \<notin> set (drop 1 hp) \<and> CHR '']'' \<notin> set (drop (e + 1) hp)
                 then Some (drop 1 (take e hp), drop (i + 1) hp) else None)
          else if CHR '':'' \<in> set (take i hp) \<or> CHR ''['' \<in> set hp \<or> CHR '']'' \<in> set hp then None
          else Some (take i hp, drop (i + 1) hp))"

section \<open>Addresses\<close>

text \<open>\<open>netip.Addr\<close>: the zero value, an IPv4 address, an IPv6 address with its zone.\<close>

datatype ip_addr = ZeroAddr | V4 u32 | V6 "128 word" string

fun IsValid :: "ip_addr \<Rightarrow> bool" where
  "IsValid ZeroAddr = False"
| "IsValid _ = True"

fun BitLen :: "ip_addr \<Rightarrow> nat" where
  "BitLen ZeroAddr = 0"
| "BitLen (V4 a) = 32"
| "BitLen (V6 a z) = 128"

fun Is4In6 :: "ip_addr \<Rightarrow> bool" where
  "Is4In6 (V6 a z) \<longleftrightarrow> drop_bit 32 a = 0xffff"
| "Is4In6 _ \<longleftrightarrow> False"

fun Unmap :: "ip_addr \<Rightarrow> ip_addr" where
  "Unmap (V6 a z) = (if Is4In6 (V6 a z) then V4 (ucast a) else V6 a z)"
| "Unmap ip = ip"

subsection \<open>Printing\<close>

definition byte_at :: "u32 \<Rightarrow> nat \<Rightarrow> nat" where
  "byte_at a k = unat (take_bit 8 (drop_bit (8 * k) a))"

definition string4 :: "u32 \<Rightarrow> string" where
  "string4 a = join_with ''.'' (map (\<lambda>k. dec (byte_at a k)) [3, 2, 1, 0])"

definition v6u16 :: "128 word \<Rightarrow> nat \<Rightarrow> nat" where
  "v6u16 a i = unat (take_bit 16 (drop_bit (16 * (7 - i)) a))"

text \<open>The longest run of at least two zero groups, the first of them.\<close>

fun zero_run :: "128 word \<Rightarrow> nat \<Rightarrow> nat \<Rightarrow> nat" where
  "zero_run a i 0 = i"
| "zero_run a i (Suc k) = (if i < 8 \<and> v6u16 a i = 0 then zero_run a (Suc i) k else i)"

definition longest_zeros :: "128 word \<Rightarrow> nat \<times> nat" where
  "longest_zeros a =
     fold (\<lambda>i (s, e). let j = zero_run a i (8 - i); l = j - i
             in if 2 \<le> l \<and> e - s < l then (i, j) else (s, e)) [0..<8] (255, 255)"

fun groups_from :: "128 word \<Rightarrow> nat \<times> nat \<Rightarrow> nat \<Rightarrow> nat \<Rightarrow> string" where
  "groups_from a (s, e) i 0 = []"
| "groups_from a (s, e) i (Suc k) =
     (if 8 \<le> i then []
      else if i = s
        then ''::'' @ (if 8 \<le> e then [] else hex (v6u16 a e) @ groups_from a (s, e) (Suc e) k)
      else (if 0 < i then '':'' else []) @ hex (v6u16 a i) @ groups_from a (s, e) (Suc i) k)"

definition zone_suffix :: "string \<Rightarrow> string" where
  "zone_suffix z = (if z = [] then [] else CHR 0x25 # z)"

fun addr_String :: "ip_addr \<Rightarrow> string" where
  "addr_String ZeroAddr = ''invalid IP''"
| "addr_String (V4 a) = string4 a"
| "addr_String (V6 a z) =
     (if Is4In6 (V6 a z) then ''::ffff:'' @ string4 (ucast a)
      else groups_from a (longest_zeros a) 0 8) @ zone_suffix z"

subsection \<open>Parsing\<close>

text \<open>The fields read so far, the value and the number of digits of the current one.\<close>

fun parse4_loop :: "string \<Rightarrow> nat list \<Rightarrow> nat \<Rightarrow> nat \<Rightarrow> nat list option" where
  "parse4_loop [] flds v digLen = (if length flds < 3 then None else Some (flds @ [v]))"
| "parse4_loop (c # cs) flds v digLen =
     (case digit_value c of
        Some d \<Rightarrow>
          if digLen = 1 \<and> v = 0 then None
          else if v * 10 + d > 255 then None
          else parse4_loop cs flds (v * 10 + d) (Suc digLen)
      | None \<Rightarrow>
          if c = CHR ''.'' then
            if digLen = 0 \<or> cs = [] then None
            else if length flds = 3 then None
            else parse4_loop cs (flds @ [v]) 0 0
          else None)"

definition horner :: "nat \<Rightarrow> nat list \<Rightarrow> nat" where
  "horner b ds = fold (\<lambda>d acc. acc * b + d) ds 0"

definition parseIPv4 :: "string \<Rightarrow> ip_addr option" where
  "parseIPv4 s = map_option (\<lambda>fs. V4 (word_of_nat (horner 256 fs))) (parse4_loop s [] 0 0)"

text \<open>
  The loop over the groups of an IPv6 address: the groups read, the position of the ellipsis
  and what is left of the text.  The first argument is the number of groups still missing.
\<close>

fun parse6_loop ::
    "nat \<Rightarrow> string \<Rightarrow> nat list \<Rightarrow> nat option \<Rightarrow> (nat list \<times> nat option \<times> string) option" where
  "parse6_loop 0 s gs ell = Some (gs, ell, s)"
| "parse6_loop (Suc k) s gs ell =
     (let ds = takeWhile (\<lambda>c. hex_value c \<noteq> None) s; rest = drop (length ds) s
      in if length ds > 4 \<or> ds = [] then None
         else if rest \<noteq> [] \<and> hd rest = CHR ''.'' then
           (if ell = None \<and> length gs \<noteq> 6 then None
            else if length gs > 6 then None
            else case parse4_loop s [] 0 0 of
                Some [a, b, c, d] \<Rightarrow> Some (gs @ [a * 256 + b, c * 256 + d], ell, [])
              | _ \<Rightarrow> None)
         else
           (let gs' = gs @ [horner 16 (map (\<lambda>c. the (hex_value c)) ds)]
            in if rest = [] then Some (gs', ell, [])
               else if hd rest \<noteq> CHR '':'' \<or> length rest = 1 then None
               else
                 (let s1 = tl rest
                  in if hd s1 = CHR '':'' then
                       (if ell \<noteq> None then None
                        else if tl s1 = [] then Some (gs', Some (length gs'), [])
                        else parse6_loop k (tl s1) gs' (Some (length gs')))
                     else parse6_loop k s1 gs' ell)))"

definition expand6 :: "nat list \<times> nat option \<times> string \<Rightarrow> nat list option" where
  "expand6 st =
     (case st of (gs, ell, s) \<Rightarrow>
        if s \<noteq> [] then None
        else if length gs < 8 then
          (case ell of None \<Rightarrow> None
           | Some e \<Rightarrow> Some (take e gs @ replicate (8 - length gs) 0 @ drop e gs))
        else if ell \<noteq> None then None else Some gs)"

definition parseIPv6 :: "string \<Rightarrow> ip_addr option" where
  "parseIPv6 s =
     (let body = takeWhile (\<lambda>c. c \<noteq> CHR 0x25) s; zone = drop (length body + 1) s;
          mk = (\<lambda>gs. V6 (word_of_nat (horner 65536 gs)) zone)
      in if CHR 0x25 \<in> set s \<and> zone = [] then None
         else if take 2 body = ''::'' then
           (if drop 2 body = [] then Some (V6 0 zone)
            else map_option mk (Option.bind (parse6_loop 8 (drop 2 body) [] (Some 0)) expand6))
         else map_option mk (Option.bind (parse6_loop 8 body [] None) expand6))"

text \<open>\<open>netip.ParseAddr\<close>: the first of the three marks decides.\<close>

definition ParseAddr :: "string \<Rightarrow> ip_addr option" where
  "ParseAddr s =
     (case find (\<lambda>c. c \<in> {CHR ''.'', CHR '':'', CHR 0x25}) s of
        Some c \<Rightarrow>
          if c = CHR ''.'' then parseIPv4 s
          else if c = CHR '':'' then parseIPv6 s else None
      | None \<Rightarrow> None)"

section \<open>Prefixes\<close>

text \<open>\<open>netip.Prefix\<close>: an address without zone and a length; \<open>None\<close> is the invalid length.\<close>

datatype ip_prefix = Prefix (pfx_addr: ip_addr) (pfx_bits: "nat option")

definition zero_prefix :: ip_prefix where
  "zero_prefix = Prefix ZeroAddr None"

fun withoutZone :: "ip_addr \<Rightarrow> ip_addr" where
  "withoutZone (V6 a z) = V6 a []"
| "withoutZone ip = ip"

definition PrefixFrom :: "ip_addr \<Rightarrow> nat \<Rightarrow> ip_prefix" where
  "PrefixFrom ip bits =
     Prefix (withoutZone ip) (if ip \<noteq> ZeroAddr \<and> bits \<le> BitLen ip then Some bits else None)"

text \<open>The address with everything behind the first \<open>bits\<close> bits cleared.\<close>

fun Masked :: "ip_prefix \<Rightarrow> ip_prefix" where
  "Masked (Prefix (V4 a) (Some b)) = Prefix (V4 (a AND NOT (mask (32 - b)))) (Some b)"
| "Masked (Prefix (V6 a z) (Some b)) = Prefix (V6 (a AND NOT (mask (128 - b))) []) (Some b)"
| "Masked _ = zero_prefix"

fun Contains :: "ip_prefix \<Rightarrow> ip_addr \<Rightarrow> bool" where
  "Contains (Prefix (V4 p) (Some b)) (V4 a) \<longleftrightarrow> drop_bit (32 - b) (a XOR p) = 0"
| "Contains (Prefix (V6 p z) (Some b)) (V6 a z') \<longleftrightarrow> z' = [] \<and> drop_bit (128 - b) (a XOR p) = 0"
| "Contains _ _ \<longleftrightarrow> False"

fun parse_nat :: "string \<Rightarrow> nat \<Rightarrow> nat option" where
  "parse_nat [] acc = Some acc"
| "parse_nat (c # cs) acc =
     (case digit_value c of None \<Rightarrow> None | Some d \<Rightarrow> parse_nat cs (acc * 10 + d))"

text \<open>
  \<open>netip.ParsePrefix\<close>: address, slash, length without sign or leading zero; zones are refused.
  (A length that overflows \<open>int\<close> in \<open>Atoi\<close> is out of range here as well.)
\<close>

definition ParsePrefix :: "string \<Rightarrow> ip_prefix option" where
  "ParsePrefix s =
     (case last_index CHR ''/'' s of
        None \<Rightarrow> None
      | Some i \<Rightarrow>
          (case ParseAddr (take i s) of
             None \<Rightarrow> None
           | Some ip \<Rightarrow>
               let bitsStr = drop (i + 1) s
               in if (case ip of V6 a z \<Rightarrow> z \<noteq> [] | _ \<Rightarrow> False) then None
                  else if length bitsStr > 1 \<and> \<not> code_in 49 57 (hd bitsStr) then None
                  else if bitsStr = [] then None
                  else case parse_nat bitsStr 0 of
                      None \<Rightarrow> None
                    | Some bits \<Rightarrow> if bits > BitLen ip then None else Some (PrefixFrom ip bits)))"

end
