(* ===== verification/Forwarding.thy ===== *)
theory Forwarding
  imports HttpTypes Netip
begin

text \<open>
  The trust decisions of \<open>internal/proxy\<close> (proxy.go): which address a request comes from
  (\<open>TrustedProxies.ClientIP\<close>, the key of IP-hash routing) and which forwarding headers the
  backend is told (\<open>setForwarded\<close>).
\<close>

section \<open>Who is the peer\<close>

type_synonym trusted_proxies = "ip_prefix list"

definition hostOnly :: "string \<Rightarrow> string" where
  "hostOnly hostport = (case SplitHostPort hostport of Some (host, _) \<Rightarrow> host | None \<Rightarrow> hostport)"

definition peerIP :: "request \<Rightarrow> ip_addr" where
  "peerIP r = (case ParseAddr (hostOnly (RemoteAddr r)) of
     None \<Rightarrow> ZeroAddr | Some addr \<Rightarrow> Unmap addr)"

definition trusted_contains :: "trusted_proxies \<Rightarrow> ip_addr \<Rightarrow> bool" where
  "trusted_contains t addr = (if \<not> IsValid addr then False else list_ex (\<lambda>p. Contains p addr) t)"

section \<open>The client address\<close>

definition forwarded_hops :: "request \<Rightarrow> string list" where
  "forwarded_hops r = concat (map (split_on CHR '','') (header_Values (Header r) ''X-Forwarded-For''))"

text \<open>The walk from right to left: \<open>client\<close> is the last address accepted.\<close>

fun walk_hops :: "trusted_proxies \<Rightarrow> string list \<Rightarrow> ip_addr \<Rightarrow> ip_addr" where
  "walk_hops t [] client = client"
| "walk_hops t (hop # hops) client =
     (case ParseAddr (TrimSpace hop) of
        None \<Rightarrow> client
      | Some addr \<Rightarrow>
          (let client' = Unmap addr
           in if \<not> trusted_contains t client' then client' else walk_hops t hops client'))"

definition ClientIP :: "trusted_proxies \<Rightarrow> request \<Rightarrow> string" where
  "ClientIP t r =
     (let peer = peerIP r
      in if \<not> trusted_contains t peer then hostOnly (RemoteAddr r)
         else addr_String (walk_hops t (rev (forwarded_hops r)) peer))"

section \<open>The forwarding headers\<close>

text \<open>\<open>httputil.ProxyRequest.SetXForwarded\<close>, on the outbound headers.\<close>

definition SetXForwarded :: "request \<Rightarrow> header \<Rightarrow> header" where
  "SetXForwarded r out =
     (let out1 = (case SplitHostPort (RemoteAddr r) of
            Some (clientIP, _) \<Rightarrow>
              (let prior = header_Values out ''X-Forwarded-For''
               in header_Set out ''X-Forwarded-For''
                    ((if prior \<noteq> [] then join_with '', '' prior @ '', '' else []) @ clientIP))
          | None \<Rightarrow> header_Del out ''X-Forwarded-For'');
          out2 = header_Set out1 ''X-Forwarded-Host'' (ReqHost r)
      in header_Set out2 ''X-Forwarded-Proto'' (if ReqTLS r then ''https'' else ''http''))"

definition setForwarded :: "trusted_proxies \<Rightarrow> request \<Rightarrow> header \<Rightarrow> header" where
  "setForwarded t r out =
     (let fromTrusted = trusted_contains t (peerIP r);
          xff = header_Values (Header r) ''X-Forwarded-For'';
          out1 = (if fromTrusted \<and> length xff > 0 then out(''X-Forwarded-For'' \<mapsto> xff) else out);
          out2 = SetXForwarded r out1;
          proto = header_Get (Header r) ''X-Forwarded-Proto''
      in if fromTrusted \<and> proto \<noteq> [] then header_Set out2 ''X-Forwarded-Proto'' proto else out2)"

text \<open>What \<open>ReverseProxy\<close> removes from the outbound request before it calls \<open>Rewrite\<close>.\<close>

definition strip_forwarded :: "header \<Rightarrow> header" where
  "strip_forwarded h = header_Del (header_Del (header_Del (header_Del h ''Forwarded'')
     ''X-Forwarded-For'') ''X-Forwarded-Host'') ''X-Forwarded-Proto''"

definition forwarding_headers :: "string set" where
  "forwarding_headers = {''Forwarded'', ''X-Forwarded-For'', ''X-Forwarded-Host'', ''X-Forwarded-Proto''}"

section \<open>The walk, declaratively\<close>

definition accepted :: "trusted_proxies \<Rightarrow> string \<Rightarrow> bool" where
  "accepted t hop \<longleftrightarrow> (case ParseAddr (TrimSpace hop) of
     None \<Rightarrow> False | Some addr \<Rightarrow> trusted_contains t (Unmap addr))"

definition hop_addr :: "string \<Rightarrow> ip_addr" where
  "hop_addr hop = (case ParseAddr (TrimSpace hop) of None \<Rightarrow> ZeroAddr | Some addr \<Rightarrow> Unmap addr)"

lemma accepted_cases:
  "ParseAddr (TrimSpace hop) = None \<Longrightarrow> \<not> accepted t hop"
  "ParseAddr (TrimSpace hop) = Some addr \<Longrightarrow> accepted t hop = trusted_contains t (Unmap addr)"
  "ParseAddr (TrimSpace hop) = Some addr \<Longrightarrow> hop_addr hop = Unmap addr"
  by (simp_all add: accepted_def hop_addr_def)

lemma walk_hops_cases:
  "ParseAddr (TrimSpace hop) = None \<Longrightarrow> walk_hops t (hop # hops) client = client"
  "accepted t hop \<Longrightarrow> walk_hops t (hop # hops) client = walk_hops t hops (hop_addr hop)"
  "ParseAddr (TrimSpace hop) \<noteq> None \<Longrightarrow> \<not> accepted t hop \<Longrightarrow>
    walk_hops t (hop # hops) client = hop_addr hop"
  by (auto simp: accepted_def hop_addr_def Let_def split: option.splits)

declare walk_hops.simps(2) [simp del]

lemma walk_hops_spec:
  "walk_hops t hops client =
     (case dropWhile (accepted t) hops of
        hop # _ \<Rightarrow> if ParseAddr (TrimSpace hop) \<noteq> None then hop_addr hop
          else last (client # map hop_addr (takeWhile (accepted t) hops))
      | [] \<Rightarrow> last (client # map hop_addr (takeWhile (accepted t) hops)))"
proof (induction hops arbitrary: client)
  case (Cons hop hops)
  show ?case
  proof (cases "accepted t hop")
    case True
    then show ?thesis by (cases "dropWhile (accepted t) hops") (simp_all add: walk_hops_cases(2) Cons.IH del: dropWhile_eq_Nil_conv)
  next
    case False
    then show ?thesis
      by (cases "ParseAddr (TrimSpace hop)") (simp_all add: walk_hops_cases(1, 3))
  qed
qed simp

lemma walk_hops_append:
  assumes "\<exists>hop\<in>set hops. \<not> accepted t hop"
  shows "walk_hops t (hops @ older) client = walk_hops t hops client"
  using assms
proof (induction hops arbitrary: client)
  case (Cons hop hops)
  show ?case
  proof (cases "accepted t hop")
    case True
    with Cons show ?thesis by (simp add: walk_hops_cases(2))
  next
    case False
    then show ?thesis
      by (cases "ParseAddr (TrimSpace hop)") (simp_all add: walk_hops_cases(1, 3))
  qed
qed simp

section \<open>Chains of forwarded values\<close>

lemma split_on_not_Nil [simp]: "split_on d s \<noteq> []"
  by (induction s) (auto split: list.splits)

lemma split_on_append:
  "split_on d (s @ d # t) = split_on d s @ split_on d t"
  by (induction s) (auto split: list.splits)

lemma split_on_single: "d \<notin> set s \<Longrightarrow> split_on d s = [s]"
  by (induction s) auto

lemma TrimSpace_skip [simp]: "TrimSpace (CHR '' '' # s) = TrimSpace s"
  by (simp add: TrimSpace_def is_space_def)

lemma accepted_skip [simp]: "accepted t (CHR '' '' # s) = accepted t s"
  by (simp add: accepted_def)

lemma hop_addr_skip [simp]: "hop_addr (CHR '' '' # s) = hop_addr s"
  by (simp add: hop_addr_def)

lemma split_on_skip: "split_on CHR '','' (CHR '' '' # s) = (CHR '' '' # hd (split_on CHR '','' s)) # tl (split_on CHR '','' s)"
  by (cases "split_on CHR '','' s") auto

lemma walk_hops_skip [simp]:
  "walk_hops t ((CHR '' '' # s) # hops) client = walk_hops t (s # hops) client"
  by (simp add: walk_hops.simps(2))

text \<open>Two lists of hops that differ in leading spaces only.\<close>

definition same_hops :: "string list \<Rightarrow> string list \<Rightarrow> bool" where
  "same_hops = list_all2 (\<lambda>a b. TrimSpace a = TrimSpace b)"

lemma same_hops_refl [simp]: "same_hops xs xs"
  by (simp add: same_hops_def list_all2_refl)

lemma same_hops_rev [simp]: "same_hops (rev xs) (rev ys) = same_hops xs ys"
  by (simp add: same_hops_def)

lemma same_hops_append: "same_hops xs ys \<Longrightarrow> same_hops xs' ys' \<Longrightarrow> same_hops (xs @ xs') (ys @ ys')"
  by (simp add: same_hops_def list_all2_appendI)

lemma walk_hops_same: "same_hops xs ys \<Longrightarrow> walk_hops t xs client = walk_hops t ys client"
  unfolding same_hops_def
  by (induction xs ys arbitrary: client rule: list_all2_induct)
    (auto simp: walk_hops.simps(2) Let_def split: option.splits)

lemma same_hops_skip: "same_hops (split_on CHR '','' (CHR '' '' # s)) (split_on CHR '','' s)"
  by (cases "split_on CHR '','' s") (auto simp: same_hops_def list_all2_refl)

lemma join_with_Cons:
  "join_with sep (x # y # ys) = x @ sep @ join_with sep (y # ys)"
  by (simp add: join_with_def)

lemma split_join:
  "vs \<noteq> [] \<Longrightarrow> same_hops (split_on CHR '','' (join_with '', '' vs)) (concat (map (split_on CHR '','') vs))"
proof (induction vs rule: induct_list012)
  case (2 x)
  then show ?case by (simp add: join_with_def)
next
  case (3 x y ys)
  let ?rest = "join_with '', '' (y # ys)"
  have "split_on CHR '','' (join_with '', '' (x # y # ys)) =
      split_on CHR '','' x @ split_on CHR '','' (CHR '' '' # ?rest)"
    by (simp add: join_with_Cons split_on_append)
  moreover have "same_hops (split_on CHR '','' (CHR '' '' # ?rest)) (concat (map (split_on CHR '','') (y # ys)))"
    using same_hops_skip [of ?rest] 3(2)
    by (auto simp: same_hops_def intro: list_all2_trans [rotated 1])
  ultimately show ?case by (auto intro: same_hops_append)
qed simp

lemma split_chain:
  "same_hops (split_on CHR '','' ((if b \<and> vs \<noteq> [] then join_with '', '' vs @ '', '' else []) @ host))
     ((if b then concat (map (split_on CHR '','') vs) else []) @ split_on CHR '','' host)"
proof (cases "b \<and> vs \<noteq> []")
  case True
  then have "same_hops (split_on CHR '','' (join_with '', '' vs)) (concat (map (split_on CHR '','') vs))"
    by (simp add: split_join)
  with True same_hops_skip [of host] show ?thesis
    by (simp add: split_on_append same_hops_append)
qed auto

lemmas set_forwarded_simps = setForwarded_def SetXForwarded_def strip_forwarded_def Let_def
  header_Set_def header_Del_def header_Get_def

lemma set_forwarded_xff:
  "header_Values (setForwarded t r (strip_forwarded h)) ''X-Forwarded-For'' =
     (case SplitHostPort (RemoteAddr r) of
        None \<Rightarrow> []
      | Some (peer, _) \<Rightarrow>
          [(if trusted_contains t (peerIP r) \<and> header_Values (Header r) ''X-Forwarded-For'' \<noteq> []
            then join_with '', '' (header_Values (Header r) ''X-Forwarded-For'') @ '', '' else []) @ peer])"
  by (auto simp: set_forwarded_simps header_Values_def split: option.splits)

lemma set_forwarded_rest:
  "header_Values (setForwarded t r (strip_forwarded h)) ''X-Forwarded-Host'' = [ReqHost r]"
  "header_Values (setForwarded t r (strip_forwarded h)) ''X-Forwarded-Proto'' =
     [if trusted_contains t (peerIP r) \<and> header_Get (Header r) ''X-Forwarded-Proto'' \<noteq> []
      then header_Get (Header r) ''X-Forwarded-Proto''
      else if ReqTLS r then ''https'' else ''http'']"
  "header_Values (setForwarded t r (strip_forwarded h)) ''Forwarded'' = []"
  by (auto simp: set_forwarded_simps header_Values_def split: option.splits)

section \<open>A sample network\<close>

text \<open>A balancer that trusts 10.0.0.0/8, and requests that reach it.\<close>

definition sample_trusted :: trusted_proxies where
  "sample_trusted = [Prefix (V4 0x0a000000) (Some 8)]"

definition sample_request :: "string \<Rightarrow> string list \<Rightarrow> request" where
  "sample_request remote xff =
     \<lparr>Method = ''GET'', ReqURL = zero_url, ReqHost = ''example.org'', ReqTLS = False,
      RemoteAddr = remote, Header = [''X-Forwarded-For'' \<mapsto> xff], Body = None,
      GetBody = None, Pattern = [], PathInstanceID = []\<rparr>"

lemma sample_request_simps [simp]:
  "RemoteAddr (sample_request remote xff) = remote"
  "header_Values (Header (sample_request remote xff)) ''X-Forwarded-For'' = xff"
  by (simp_all add: sample_request_def header_Values_def)

lemmas parse_eval = ParseAddr_def parseIPv4_def digit_value_def code_in_def horner_def

lemma sample_parse:
  "ParseAddr ''10.0.0.9'' = Some (V4 0x0a000009)"
  "ParseAddr ''10.0.0.8'' = Some (V4 0x0a000008)"
  "ParseAddr ''203.0.113.7'' = Some (V4 0xcb007107)"
  by (simp_all add: parse_eval)

lemma sample_hosts:
  "hostOnly ''10.0.0.9:5'' = ''10.0.0.9''"
  "SplitHostPort ''203.0.113.7:80'' = Some (''203.0.113.7'', ''80'')"
  "hostOnly ''203.0.113.7:80'' = ''203.0.113.7''"
  by (simp_all add: hostOnly_def SplitHostPort_def last_index_def)

lemma sample_contains:
  "trusted_contains sample_trusted (V4 0x0a000009)"
  "trusted_contains sample_trusted (V4 0x0a000008)"
  "\<not> trusted_contains sample_trusted (V4 0xcb007107)"
  by (simp_all add: sample_trusted_def trusted_contains_def)

lemma sample_trim:
  "TrimSpace ''10.0.0.8'' = ''10.0.0.8''" "TrimSpace ''203.0.113.7'' = ''203.0.113.7''"
  by (simp_all add: TrimSpace_def is_space_def code_in_def)

lemma sample_text: "string4 0xcb007107 = ''203.0.113.7''"
  by (simp add: string4_def byte_at_def dec.simps hex_digit_def join_with_def)

lemma sample_peer:
  "peerIP (sample_request ''10.0.0.9:5'' xff) = V4 0x0a000009"
  "peerIP (sample_request ''203.0.113.7:80'' xff) = V4 0xcb007107"
  by (simp_all add: peerIP_def sample_hosts sample_parse)

lemma sample_accepted:
  "accepted sample_trusted ''10.0.0.8''" "\<not> accepted sample_trusted ''203.0.113.7''"
  "hop_addr ''203.0.113.7'' = V4 0xcb007107"
  by (simp_all add: accepted_def hop_addr_def sample_trim sample_parse sample_contains)

lemmas sample_net = sample_hosts sample_contains sample_peer sample_accepted sample_text sample_parse
  sample_trim

section \<open>Properties\<close>

text \<open>
  C23. The client address is chosen declaratively: an untrusted peer is its own address as
  text, whatever the headers say.  For a trusted peer it is the first hop, counted from the
  right, that is not a parsable trusted address when that hop parses; when that hop is
  malformed, or every hop is a trusted address, it is the last trusted address passed, or the
  peer.
\<close>

theorem client_ip_spec:
  "ClientIP t r =
    (if \<not> trusted_contains t (peerIP r) then hostOnly (RemoteAddr r)
     else addr_String
       (case dropWhile (accepted t) (rev (forwarded_hops r)) of
          hop # _ \<Rightarrow> if ParseAddr (TrimSpace hop) \<noteq> None then hop_addr hop
            else last (peerIP r # map hop_addr (takeWhile (accepted t) (rev (forwarded_hops r))))
        | [] \<Rightarrow> last (peerIP r # map hop_addr (takeWhile (accepted t) (rev (forwarded_hops r))))))"
  by (simp add: ClientIP_def walk_hops_spec Let_def)

text \<open>
  C24. A client cannot steer its own routing key: prepending any values to X-Forwarded-For
  changes nothing once the hops added by the proxies contain one that is not a trusted address
  (the client as the outermost trusted proxy saw it), and for an untrusted peer no header
  matters at all.
\<close>

theorem client_ip_not_forgeable:
  assumes "header_Values (Header r') ''X-Forwarded-For'' =
      forged @ header_Values (Header r) ''X-Forwarded-For''"
    and "RemoteAddr r' = RemoteAddr r"
    and "trusted_contains t (peerIP r) \<longrightarrow> (\<exists>hop\<in>set (forwarded_hops r). \<not> accepted t hop)"
  shows "ClientIP t r' = ClientIP t r"
proof -
  have peer: "peerIP r' = peerIP r" using assms(2) by (simp add: peerIP_def)
  show ?thesis
  proof (cases "trusted_contains t (peerIP r)")
    case False
    with peer assms(2) show ?thesis by (simp add: ClientIP_def)
  next
    case True
    with assms(3) have "\<exists>hop\<in>set (rev (forwarded_hops r)). \<not> accepted t hop" by simp
    moreover have "rev (forwarded_hops r') = rev (forwarded_hops r) @
        rev (concat (map (split_on CHR '','') forged))"
      by (simp add: forwarded_hops_def assms(1))
    ultimately show ?thesis
      using True peer by (simp add: ClientIP_def walk_hops_append)
  qed
qed


lemma client_ip_not_forgeable_witness:
  "ClientIP sample_trusted (sample_request ''10.0.0.9:5'' [''6.6.6.6'', ''203.0.113.7, 10.0.0.8'']) = ''203.0.113.7''"
proof -
  let ?r = "sample_request ''10.0.0.9:5'' [''203.0.113.7, 10.0.0.8'']"
  have hops: "forwarded_hops ?r = [''203.0.113.7'', '' 10.0.0.8'']"
    by (simp add: forwarded_hops_def)
  have "ClientIP sample_trusted (sample_request ''10.0.0.9:5'' [''6.6.6.6'', ''203.0.113.7, 10.0.0.8'']) =
      ClientIP sample_trusted ?r"
    by (rule client_ip_not_forgeable [where forged = "[''6.6.6.6'']"]) (simp_all add: hops sample_net)
  also have "\<dots> = ''203.0.113.7''"
    by (simp add: ClientIP_def hops sample_net walk_hops_cases)
  finally show ?thesis .
qed

text \<open>
  C25. What a backend is told, on every branch, for the request \<open>ReverseProxy\<close> hands to
  \<open>setForwarded\<close>: X-Forwarded-For is the peer alone, preceded by the received chain exactly
  when the peer is a trusted proxy, and absent when the peer address has no port;
  X-Forwarded-Host is the requested host; X-Forwarded-Proto is the scheme of this connection
  unless a trusted proxy named another; a Forwarded header never gets through; every other
  header is left alone.
\<close>

theorem forwarded_headers_spec:
  "header_Values (setForwarded t r (strip_forwarded h)) ''X-Forwarded-For'' =
     (case SplitHostPort (RemoteAddr r) of
        None \<Rightarrow> []
      | Some (peer, _) \<Rightarrow>
          [(if trusted_contains t (peerIP r) \<and> header_Values (Header r) ''X-Forwarded-For'' \<noteq> []
            then join_with '', '' (header_Values (Header r) ''X-Forwarded-For'') @ '', '' else []) @ peer])
   \<and> header_Values (setForwarded t r (strip_forwarded h)) ''X-Forwarded-Host'' = [ReqHost r]
   \<and> header_Values (setForwarded t r (strip_forwarded h)) ''X-Forwarded-Proto'' =
       [if trusted_contains t (peerIP r) \<and> header_Get (Header r) ''X-Forwarded-Proto'' \<noteq> []
        then header_Get (Header r) ''X-Forwarded-Proto''
        else if ReqTLS r then ''https'' else ''http'']
   \<and> header_Values (setForwarded t r (strip_forwarded h)) ''Forwarded'' = []
   \<and> setForwarded t r (strip_forwarded h) |` (- forwarding_headers) = h |` (- forwarding_headers)"
  (is "?xff \<and> ?host \<and> ?proto \<and> ?fwd \<and> ?rest")
proof (intro conjI)
  show ?xff by (rule set_forwarded_xff)
  show ?host ?proto ?fwd by (rule set_forwarded_rest)+
  show ?rest
    by (rule ext) (auto simp: set_forwarded_simps forwarding_headers_def restrict_map_def split: option.splits)
qed

text \<open>
  C26. Balancers in a chain agree: when a second balancer receives a request that a first one
  forwarded, and trusts that peer, it computes the client address the first one computed (or
  the first one's peer, if that peer was not trusted), whatever header values the client sent.
\<close>

theorem chained_balancers_agree:
  assumes "SplitHostPort (RemoteAddr r) = Some (host, port)"
    and "TrimSpace host = host" and "CHR '','' \<notin> set host" and "ParseAddr host \<noteq> None"
    and "Header r2 = setForwarded t r (strip_forwarded h)"
    and "trusted_contains t (peerIP r2)"
  shows "ClientIP t r2 = (if trusted_contains t (peerIP r) then ClientIP t r else addr_String (peerIP r))"
proof -
  have peer: "hop_addr host = peerIP r" "accepted t host = trusted_contains t (peerIP r)"
    using assms(1,2,4) by (auto simp: hop_addr_def accepted_def peerIP_def hostOnly_def)
  have chain: "same_hops (forwarded_hops r2)
      ((if trusted_contains t (peerIP r) then forwarded_hops r else []) @ [host])"
    using split_chain [of "trusted_contains t (peerIP r)" "header_Values (Header r) ''X-Forwarded-For''" host]
    by (simp only: forwarded_hops_def assms(1,5) set_forwarded_xff split_on_single [OF assms(3)]
        option.case prod.case list.map concat.simps append_Nil2)
  have "ClientIP t r2 = addr_String (walk_hops t (host # rev
      (if trusted_contains t (peerIP r) then forwarded_hops r else [])) (peerIP r2))"
    using assms(6) walk_hops_same [OF same_hops_rev [THEN iffD2, OF chain]] by (simp add: ClientIP_def)
  then show ?thesis
    using assms(2,4) peer by (cases "accepted t host") (simp_all add: walk_hops_cases ClientIP_def)
qed

lemma chained_balancers_agree_witness:
  "ClientIP sample_trusted ((sample_request ''10.0.0.9:5'' [])
      \<lparr>Header := setForwarded sample_trusted (sample_request ''203.0.113.7:80'' [''6.6.6.6''])
        (strip_forwarded [''X-Forwarded-For'' \<mapsto> [''6.6.6.6'']])\<rparr>) = ''203.0.113.7''"
  (is "ClientIP _ ?r2 = _")
proof -
  let ?r = "sample_request ''203.0.113.7:80'' [''6.6.6.6'']"
  have peer: "peerIP ?r2 = V4 0x0a000009"
    using sample_peer(1) [of "[]"] by (simp add: peerIP_def)
  have "ClientIP sample_trusted ?r2 = (if trusted_contains sample_trusted (peerIP ?r)
      then ClientIP sample_trusted ?r else addr_String (peerIP ?r))"
    by (rule chained_balancers_agree [where host = "''203.0.113.7''" and port = "''80''"
        and h = "[''X-Forwarded-For'' \<mapsto> [''6.6.6.6'']]"])
      (simp_all add: sample_net peer)
  then show ?thesis by (simp add: sample_net)
qed

end
