(* ===== verification/ReverseProxy.thy ===== *)
theory ReverseProxy
  imports Forwarding "HOL-Library.Char_ord" "HOL-Library.List_Lexorder"
begin

text \<open>
  The part of Go's \<open>net/http/httputil\<close> that stands between \<open>proxyOnce\<close> and the network: the
  outbound request \<open>ReverseProxy.ServeHTTP\<close> builds (hop-by-hop headers, upgrade handling, query
  cleaning, the \<open>Rewrite\<close> hook) and \<open>ProxyRequest.SetURL\<close>.  The hook itself is the balancer's own
  code: \<open>SetURL\<close> on the backend's URL, then \<open>setForwarded\<close>.  The round trip over the network is
  a parameter of the theory \<open>Proxy\<close>.  Requests have no declared length here: where it is zero, Go sends
  a nil body, and the model one with nothing to read, which are the same on the wire.
\<close>

section \<open>Header tokens\<close>

definition lower :: "char \<Rightarrow> char" where
  "lower c = (if code_in 65 90 c then char_of (of_char c + 32 :: nat) else c)"

definition upper :: "char \<Rightarrow> char" where
  "upper c = (if code_in 97 122 c then char_of (of_char c - 32 :: nat) else c)"

text \<open>Optional white space is blank or tab.\<close>

definition is_ows :: "char \<Rightarrow> bool" where
  "is_ows c \<longleftrightarrow> c = CHR '' '' \<or> c = CHR 0x09"

definition TrimOWS :: "string \<Rightarrow> string" where
  "TrimOWS s = rev (dropWhile is_ows (rev (dropWhile is_ows s)))"

definition contains_token :: "string list \<Rightarrow> string \<Rightarrow> bool" where
  "contains_token values token \<longleftrightarrow>
     list_ex (\<lambda>v. list_ex (\<lambda>f. map lower (TrimOWS f) = map lower token) (split_on CHR '','' v)) values"

definition token_char :: "char \<Rightarrow> bool" where
  "token_char c \<longleftrightarrow> is_alnum c \<or> c \<in> set ''!#$&*+-.^_|~'' \<or> c = CHR 0x25 \<or> c = CHR 0x27 \<or> c = CHR 0x60"

text \<open>The canonical form of a header name: the first letter and those after a hyphen are upper
  case, the others lower case; a name with other characters is left alone.\<close>

fun canonical_go :: "bool \<Rightarrow> string \<Rightarrow> string" where
  "canonical_go up [] = []"
| "canonical_go up (c # cs) = (if up then upper c else lower c) # canonical_go (c = CHR ''-'') cs"

definition CanonicalKey :: "string \<Rightarrow> string" where
  "CanonicalKey s = (if list_all token_char s then canonical_go True s else s)"

section \<open>Hop-by-hop headers\<close>

definition hopHeaders :: "string list" where
  "hopHeaders = [''Connection'', ''Proxy-Connection'', ''Keep-Alive'', ''Proxy-Authenticate'',
     ''Proxy-Authorization'', ''Te'', ''Trailer'', ''Transfer-Encoding'', ''Upgrade'']"

definition connection_named :: "header \<Rightarrow> string list" where
  "connection_named h =
     map CanonicalKey (filter (\<lambda>s. s \<noteq> [])
       (map TrimOWS (concat (map (split_on CHR '','') (header_Values h ''Connection'')))))"

definition removeHopByHopHeaders :: "header \<Rightarrow> header" where
  "removeHopByHopHeaders h = fold (\<lambda>k h'. header_Del h' k) (connection_named h @ hopHeaders) h"

definition upgradeType :: "header \<Rightarrow> string" where
  "upgradeType h =
     (if \<not> contains_token (header_Values h ''Connection'') ''Upgrade'' then [] else header_Get h ''Upgrade'')"

section \<open>Query cleaning\<close>

fun query_unescape :: "string \<Rightarrow> string option" where
  "query_unescape [] = Some []"
| "query_unescape (c # cs) =
     (if c = CHR 0x25
      then (case cs of
              a # b # rest \<Rightarrow>
                (case (hex_value a, hex_value b) of
                   (Some x, Some y) \<Rightarrow> map_option ((#) (char_of (16 * x + y))) (query_unescape rest)
                 | _ \<Rightarrow> None)
            | _ \<Rightarrow> None)
      else map_option ((#) (if c = CHR ''+'' then CHR '' '' else c)) (query_unescape cs))"

definition query_escape :: "string \<Rightarrow> string" where
  "query_escape s = concat (map (\<lambda>c.
     if is_alnum c \<or> c \<in> set ''-_.~'' then [c]
     else if c = CHR '' '' then ''+''
     else [CHR 0x25, upperhex (of_char c div 16), upperhex (of_char c mod 16)]) s)"

text \<open>One setting of a query: \<open>None\<close> where \<open>ParseQuery\<close> skips it.\<close>

definition parse_setting :: "string \<Rightarrow> (string \<times> string) option" where
  "parse_setting s =
     (if CHR '';'' \<in> set s \<or> s = [] then None
      else let key = takeWhile (\<lambda>c. c \<noteq> CHR ''='') s; val = drop (length key + 1) s
        in (case (query_unescape key, query_unescape val) of
              (Some k, Some v) \<Rightarrow> Some (k, v) | _ \<Rightarrow> None))"

definition ParseQuery :: "string \<Rightarrow> (string \<times> string) list" where
  "ParseQuery q = List.map_filter parse_setting (split_on CHR ''&'' q)"

definition values_Encode :: "(string \<times> string) list \<Rightarrow> string" where
  "values_Encode kvs =
     join_with ''&'' (concat (map (\<lambda>k. map (\<lambda>(k', v). query_escape k' @ ''='' @ query_escape v)
       (filter (\<lambda>(k', v). k' = k) kvs)) (sort (remdups (map fst kvs)))))"

fun query_clean :: "string \<Rightarrow> bool" where
  "query_clean [] = True"
| "query_clean (c # cs) =
     (if c = CHR '';'' then False
      else if c = CHR 0x25
      then (case cs of a # b # rest \<Rightarrow> hex_value a \<noteq> None \<and> hex_value b \<noteq> None \<and> query_clean rest
            | _ \<Rightarrow> False)
      else query_clean cs)"

definition cleanQueryParams :: "string \<Rightarrow> string" where
  "cleanQueryParams s = (if query_clean s then s else values_Encode (ParseQuery s))"

section \<open>The URL of the outbound request\<close>

definition has_suffix_slash :: "string \<Rightarrow> bool" where
  "has_suffix_slash s \<longleftrightarrow> s \<noteq> [] \<and> last s = CHR ''/''"

definition has_prefix_slash :: "string \<Rightarrow> bool" where
  "has_prefix_slash s \<longleftrightarrow> s \<noteq> [] \<and> hd s = CHR ''/''"

definition singleJoiningSlash :: "string \<Rightarrow> string \<Rightarrow> string" where
  "singleJoiningSlash a b =
     (if has_suffix_slash a \<and> has_prefix_slash b then a @ tl b
      else if \<not> has_suffix_slash a \<and> \<not> has_prefix_slash b then a @ ''/'' @ b else a @ b)"

definition joinURLPath :: "url \<Rightarrow> url \<Rightarrow> string \<times> string" where
  "joinURLPath a b =
     (if url_RawPath a = [] \<and> url_RawPath b = [] then (singleJoiningSlash (url_Path a) (url_Path b), [])
      else
        (let apath = EscapedPath a; bpath = EscapedPath b
         in if has_suffix_slash apath \<and> has_prefix_slash bpath
              then (url_Path a @ tl (url_Path b), apath @ tl bpath)
            else if \<not> has_suffix_slash apath \<and> \<not> has_prefix_slash bpath
              then (url_Path a @ ''/'' @ url_Path b, apath @ ''/'' @ bpath)
            else (url_Path a @ url_Path b, apath @ bpath)))"

definition rewriteRequestURL :: "url \<Rightarrow> url \<Rightarrow> url" where
  "rewriteRequestURL target u =
     (let (path, rawpath) = joinURLPath target u; tq = url_RawQuery target; rq = url_RawQuery u
      in u\<lparr>url_Scheme := url_Scheme target, url_Host := url_Host target, url_Path := path,
           url_RawPath := rawpath,
           url_RawQuery := (if tq = [] \<or> rq = [] then tq @ rq else tq @ ''&'' @ rq)\<rparr>)"

text \<open>\<open>SetURL\<close> also empties the host, so that the outbound Host header is the backend's.\<close>

definition SetURL :: "url \<Rightarrow> request \<Rightarrow> request" where
  "SetURL target out = out\<lparr>ReqURL := rewriteRequestURL target (ReqURL out), ReqHost := []\<rparr>"

section \<open>The outbound request\<close>

text \<open>
  What \<open>ReverseProxy\<close> does before the hook; \<open>None\<close> stands for the call of the error handler on
  an unprintable upgrade protocol.
\<close>

definition prepare_outbound :: "request \<Rightarrow> request option" where
  "prepare_outbound r =
     (let up = upgradeType (Header r)
      in if \<not> list_all (code_in 32 126) up then None
         else
           (let h1 = removeHopByHopHeaders (Header r);
                h2 = (if contains_token (header_Values (Header r) ''Te'') ''trailers''
                      then header_Set h1 ''Te'' ''trailers'' else h1);
                h3 = (if up \<noteq> [] then header_Set (header_Set h2 ''Connection'' ''Upgrade'') ''Upgrade'' up
                      else h2)
            in Some (r\<lparr>Header := strip_forwarded h3,
                 ReqURL := (ReqURL r)\<lparr>url_RawQuery := cleanQueryParams (url_RawQuery (ReqURL r))\<rparr>\<rparr>)))"

text \<open>The balancer's \<open>Rewrite\<close> hook.\<close>

definition Rewrite :: "trusted_proxies \<Rightarrow> url \<Rightarrow> request \<Rightarrow> request \<Rightarrow> request" where
  "Rewrite t target r out =
     (let out1 = SetURL target out in out1\<lparr>Header := setForwarded t r (Header out1)\<rparr>)"

definition default_user_agent :: "header \<Rightarrow> header" where
  "default_user_agent h = (if h ''User-Agent'' = None then header_Set h ''User-Agent'' [] else h)"

definition outbound :: "trusted_proxies \<Rightarrow> url \<Rightarrow> request \<Rightarrow> request option" where
  "outbound t target r =
     map_option (\<lambda>out. (Rewrite t target r out)
       \<lparr>Header := default_user_agent (Header (Rewrite t target r out))\<rparr>) (prepare_outbound r)"

section \<open>Facts on the outbound request\<close>

lemma fold_header_Del: "fold (\<lambda>k h'. header_Del h' k) ks h = (\<lambda>k. if k \<in> set ks then None else h k)"
  by (induction ks arbitrary: h) (auto simp: header_Del_def fun_eq_iff)

lemma removeHopByHopHeaders_apply:
  "removeHopByHopHeaders h k = (if k \<in> set (connection_named h) \<union> set hopHeaders then None else h k)"
  by (simp add: removeHopByHopHeaders_def fold_header_Del)

lemma outbound_fields:
  assumes "outbound t target r = Some out"
  shows "Method out = Method r" and "Body out = Body r" and "ReqHost out = []"
    and "url_Host (ReqURL out) = url_Host target" and "url_Scheme (ReqURL out) = url_Scheme target"
  using assms
  by (auto simp: outbound_def prepare_outbound_def Rewrite_def SetURL_def rewriteRequestURL_def
      Let_def split_beta split: if_splits)

text \<open>The forwarding headers of the outbound request do not depend on which headers the client
  declared to be hop-by-hop.\<close>

lemma outbound_header:
  assumes "outbound t target r = Some out"
  obtains h where "Header out = default_user_agent (setForwarded t r (strip_forwarded h))"
  using assms by (auto simp: outbound_def prepare_outbound_def Rewrite_def SetURL_def Let_def
      split: if_splits)

lemma default_user_agent_Values [simp]:
  "k \<noteq> ''User-Agent'' \<Longrightarrow> header_Values (default_user_agent h) k = header_Values h k"
  by (simp add: default_user_agent_def)

lemma joinURLPath_prefix: "\<exists>rest. fst (joinURLPath a b) = url_Path a @ rest"
  by (auto simp: joinURLPath_def singleJoiningSlash_def Let_def)

lemma outbound_path:
  assumes "outbound t target r = Some out"
  shows "\<exists>rest. url_Path (ReqURL out) = url_Path target @ rest"
  using assms joinURLPath_prefix [of target]
  by (auto simp: outbound_def prepare_outbound_def Rewrite_def SetURL_def rewriteRequestURL_def
      Let_def split_beta split: if_splits)

text \<open>Only an unprintable upgrade protocol keeps a request from being sent, whatever the target.\<close>

lemma outbound_None_iff:
  "outbound t target r = None \<longleftrightarrow> \<not> list_all (code_in 32 126) (upgradeType (Header r))"
  by (simp add: outbound_def prepare_outbound_def Let_def)

section \<open>Properties\<close>

text \<open>
  C38. What a backend receives: the method and the body of the client's request, on the backend's
  own scheme and host and under its base path, with the Host header left to the backend's
  address; X-Forwarded-For and X-Forwarded-Host are the balancer's, whatever headers the client
  sends or declares to be hop-by-hop; no Forwarded header.
\<close>

theorem outbound_request_spec:
  assumes "outbound t target r = Some out"
  shows "Method out = Method r \<and> Body out = Body r \<and> ReqHost out = []
    \<and> url_Scheme (ReqURL out) = url_Scheme target \<and> url_Host (ReqURL out) = url_Host target
    \<and> (\<exists>rest. url_Path (ReqURL out) = url_Path target @ rest)
    \<and> header_Values (Header out) ''X-Forwarded-For'' =
       (case SplitHostPort (RemoteAddr r) of
          None \<Rightarrow> []
        | Some (peer, _) \<Rightarrow>
            [(if trusted_contains t (peerIP r) \<and> header_Values (Header r) ''X-Forwarded-For'' \<noteq> []
              then join_with '', '' (header_Values (Header r) ''X-Forwarded-For'') @ '', '' else []) @ peer])
    \<and> header_Values (Header out) ''X-Forwarded-Host'' = [ReqHost r]
    \<and> header_Values (Header out) ''Forwarded'' = []"
proof -
  from outbound_header [OF assms] obtain h
    where "Header out = default_user_agent (setForwarded t r (strip_forwarded h))" .
  with outbound_fields [OF assms] outbound_path [OF assms] show ?thesis
    by (simp add: set_forwarded_xff set_forwarded_rest)
qed

lemma outbound_request_spec_witness:
  "\<exists>out. outbound sample_trusted (mk_url ''http'' ''svc:81'' ''/api'')
      (sample_request ''203.0.113.7:80'' [''6.6.6.6'']) = Some out \<and>
    header_Values (Header out) ''X-Forwarded-For'' = [''203.0.113.7''] \<and>
    url_Host (ReqURL out) = ''svc:81''"
proof -
  let ?r = "sample_request ''203.0.113.7:80'' [''6.6.6.6'']"
  have "upgradeType (Header ?r) = []"
    by (simp add: upgradeType_def contains_token_def header_Values_def sample_request_def)
  then have "outbound sample_trusted (mk_url ''http'' ''svc:81'' ''/api'') ?r \<noteq> None"
    by (simp add: outbound_None_iff)
  then obtain out where out: "outbound sample_trusted (mk_url ''http'' ''svc:81'' ''/api'') ?r = Some out"
    by blast
  from outbound_request_spec [OF out] show ?thesis
    unfolding out by (simp add: sample_net mk_url_def)
qed

end
