(* ===== verification/RegistryApi.thy ===== *)
theory RegistryApi
  imports Domain
begin

text \<open>
  What the packages around the registry rely on, as they see it through their Go interfaces
  (\<open>handlers.Registry\<close>, \<open>health.Registry\<close>, \<open>handlers.ReadinessChecker\<close>): the content of the
  registry is a list of backends, and each operation acts on that list.  The operations on
  lists come first; the locales then state that an implementation over some state type acts
  like them, and prove once what the clients use.
\<close>

section \<open>The operations on lists of backends\<close>

definition spec_add :: "string \<Rightarrow> url \<Rightarrow> u64 \<Rightarrow> backend list \<Rightarrow> backend list \<times> (string + string)" where
  "spec_add uid u weight bs =
     (if \<exists>b\<in>set bs. map_option url_String (URL b) = Some (url_String u)
      then (bs, Inl (''url '' @ url_String u @ '' is already registered''))
      else (bs @ [NewBackend uid (Some u) weight], Inr uid))"

definition spec_remove :: "string \<Rightarrow> backend list \<Rightarrow> backend list \<times> bool" where
  "spec_remove i bs =
     (filter (\<lambda>b. InstanceID b \<noteq> i) bs, \<exists>b\<in>set bs. InstanceID b = i)"

definition mark :: "string \<Rightarrow> bool \<Rightarrow> backend \<Rightarrow> backend" where
  "mark i v b = (if InstanceID b = i then backend_SetHealthy b v else b)"

definition spec_set_healthy :: "string \<Rightarrow> bool \<Rightarrow> backend list \<Rightarrow> backend list \<times> bool" where
  "spec_set_healthy i v bs = (map (mark i v) bs, \<exists>b\<in>set bs. InstanceID b = i)"

lemma mark_simps [simp]:
  "InstanceID (mark i v b) = InstanceID b"
  "URL (mark i v b) = URL b"
  "Weight (mark i v b) = Weight b"
  "ActiveConnectionsNo (mark i v b) = ActiveConnectionsNo b"
  "weight_ok (mark i v b) = weight_ok b"
  "healthy (mark i v b) = (if InstanceID b = i then v else healthy b)"
  by (simp_all add: mark_def weight_ok_def)

lemma map_ids_mark [simp]: "map InstanceID (map (mark i v) bs) = map InstanceID bs"
  by simp

lemma mark_idem [simp]: "mark i v (mark i v' b) = mark i v b"
  by (simp add: mark_def backend_SetHealthy_def)

lemma mark_same: "(InstanceID b = i \<Longrightarrow> healthy b = v) \<Longrightarrow> mark i v b = b"
  by (simp add: mark_def backend_SetHealthy_def)

section \<open>The interfaces\<close>

locale backend_lister =
  fixes inv :: "'w \<Rightarrow> bool"
    and view :: "'w \<Rightarrow> backend list"
  assumes view_ids: "inv w \<Longrightarrow> distinct (map InstanceID (view w))"
    and view_urls: "inv w \<Longrightarrow> b \<in> set (view w) \<Longrightarrow> URL b \<noteq> None"
begin

lemma view_unique:
  "inv w \<Longrightarrow> b \<in> set (view w) \<Longrightarrow> c \<in> set (view w) \<Longrightarrow> InstanceID b = InstanceID c \<Longrightarrow> b = c"
  using view_ids by (auto simp: distinct_map inj_on_def)

end

locale backend_manager = backend_lister +
  fixes add :: "string \<Rightarrow> url \<Rightarrow> u64 \<Rightarrow> 'a \<Rightarrow> ('a \<times> (string + string)) go"
    and remove :: "string \<Rightarrow> 'a \<Rightarrow> ('a \<times> bool) go"
  assumes add_law: "inv w \<Longrightarrow> uid \<notin> InstanceID ` set (view w) \<Longrightarrow>
      \<exists>w'. add uid u wt w = Ret (w', snd (spec_add uid u wt (view w))) \<and> inv w' \<and>
           view w' = fst (spec_add uid u wt (view w))"
    and remove_law: "inv w \<Longrightarrow>
      \<exists>w'. remove i w = Ret (w', snd (spec_remove i (view w))) \<and> inv w' \<and>
           view w' = fst (spec_remove i (view w))"
begin

lemma add_result:
  assumes "inv w" and "uid \<notin> InstanceID ` set (view w)" and "add uid u wt w = Ret (w', r)"
  shows "inv w'" and "(view w', r) = spec_add uid u wt (view w)"
  using add_law [OF assms(1,2), of u wt] assms(3) by (auto simp: prod_eq_iff)

lemma remove_result:
  assumes "inv w" and "remove i w = Ret (w', r)"
  shows "inv w'" and "(view w', r) = spec_remove i (view w)"
  using remove_law [OF assms(1), of i] assms(2) by (auto simp: prod_eq_iff)

text \<open>A registration of a URL already there is refused and changes nothing.\<close>

lemma add_duplicate:
  assumes "inv w" and "uid \<notin> InstanceID ` set (view w)" and "b \<in> set (view w)"
    and "URL b = Some v" and "url_String v = url_String u"
  shows "\<exists>w'. add uid u wt w =
      Ret (w', Inl (''url '' @ url_String u @ '' is already registered'')) \<and> view w' = view w"
proof -
  from assms(3-5) have "\<exists>b\<in>set (view w). map_option url_String (URL b) = Some (url_String u)"
    by auto
  with add_law [OF assms(1,2), of u wt] show ?thesis by (auto simp: spec_add_def)
qed

text \<open>Removing what was just registered restores the content.\<close>

lemma add_then_remove:
  assumes "inv w" and "uid \<notin> InstanceID ` set (view w)" and "add uid u wt w = Ret (w', Inr i)"
  shows "\<exists>w''. remove i w' = Ret (w'', True) \<and> inv w'' \<and> view w'' = view w"
proof -
  from add_result [OF assms] assms(3) have inv: "inv w'" and i: "i = uid"
    and v: "view w' = view w @ [NewBackend uid (Some u) wt]"
    by (auto simp: spec_add_def split: if_splits)
  from assms(2) have "filter (\<lambda>b. InstanceID b \<noteq> uid) (view w) = view w"
    by (auto simp: filter_id_conv)
  with remove_law [OF inv, of i] v i show ?thesis by (auto simp: spec_remove_def)
qed

text \<open>A removed identifier is gone: a second removal reports that it was not there.\<close>

lemma remove_twice:
  assumes "inv w" and "remove i w = Ret (w', r)"
  shows "\<exists>w''. remove i w' = Ret (w'', False) \<and> view w'' = view w'"
proof -
  from remove_result [OF assms] have "inv w'" and "view w' = fst (spec_remove i (view w))"
    by (auto simp: prod_eq_iff)
  with remove_law [of w' i] show ?thesis by (auto simp: spec_remove_def filter_id_conv)
qed

end

locale health_registry = backend_lister +
  fixes set_healthy :: "string \<Rightarrow> bool \<Rightarrow> 'a \<Rightarrow> 'a \<times> bool"
  assumes set_healthy_inv: "inv w \<Longrightarrow> inv (fst (set_healthy i v w))"
    and set_healthy_view: "inv w \<Longrightarrow> view (fst (set_healthy i v w)) = map (mark i v) (view w)"
    and set_healthy_found: "inv w \<Longrightarrow>
      snd (set_healthy i v w) \<longleftrightarrow> (\<exists>b\<in>set (view w). InstanceID b = i)"
begin

lemma set_healthy_ids: "inv w \<Longrightarrow> map InstanceID (view (fst (set_healthy i v w))) = map InstanceID (view w)"
  by (simp add: set_healthy_view)

text \<open>Reporting a health value twice is reporting it once.\<close>

lemma set_healthy_again:
  "inv w \<Longrightarrow> view (fst (set_healthy i v (fst (set_healthy i v' w)))) = view (fst (set_healthy i v w))"
  by (simp add: set_healthy_view set_healthy_inv)

text \<open>A report on a backend that has left changes nothing.\<close>

lemma set_healthy_absent:
  assumes "inv w" and "i \<notin> InstanceID ` set (view w)"
  shows "view (fst (set_healthy i v w)) = view w" and "\<not> snd (set_healthy i v w)"
proof -
  from assms(2) have "map (mark i v) (view w) = view w" by (intro map_idI mark_same) auto
  with assms show "view (fst (set_healthy i v w)) = view w" by (simp add: set_healthy_view)
  from assms show "\<not> snd (set_healthy i v w)" by (auto simp: set_healthy_found)
qed

end

text \<open>The registry the program uses offers both interfaces on the same state.\<close>

locale backend_registry =
  backend_manager inv view add remove + health_registry inv view set_healthy
  for inv :: "'w \<Rightarrow> bool" and view and add and remove and set_healthy
begin

text \<open>A backend registered at run time is not routed to before its first good report.\<close>

lemma add_not_healthy:
  assumes "inv w" and "uid \<notin> InstanceID ` set (view w)" and "add uid u wt w = Ret (w', r)"
  shows "filter Healthy (view w') = filter Healthy (view w)"
  using add_result(2) [OF assms] by (auto simp: spec_add_def split: if_splits)

end

end
