(* ===== verification/GoSlice.thy ===== *)
theory GoSlice
  imports Prelude
begin

text \<open>
  Go slices as the registry uses them: a slice is a header (array, length, capacity) over a
  shared backing array, so an in-place write through one header is seen through every other
  header on the same array.  The copy-on-write discipline of the registry is a statement about
  this aliasing; hence the arrays are kept in an explicit store.

  Modelled: reading, \<open>make\<close>, \<open>append\<close> of one element (in place when the capacity
  allows it), \<open>slices.Clone\<close> and \<open>slices.DeleteFunc\<close>.  How much spare capacity the
  run time reserves is unspecified in Go; it is the parameter \<open>grow\<close>.  Every slice of the
  program starts at index 0 of its array, so a header needs no offset.
\<close>

section \<open>State\<close>

record 'a amem =
  arrays :: "nat \<Rightarrow> 'a list"
  abrk :: nat

record slice =
  sl_data :: nat
  sl_len :: nat
  sl_cap :: nat

definition nil_slice :: slice where
  "nil_slice = \<lparr>sl_data = 0, sl_len = 0, sl_cap = 0\<rparr>"

definition elems :: "'a amem \<Rightarrow> slice \<Rightarrow> 'a list" where
  "elems m s = take (sl_len s) (arrays m (sl_data s))"

text \<open>A header is well formed when its array exists and is as long as the capacity says.\<close>

definition slice_ok :: "'a amem \<Rightarrow> slice \<Rightarrow> bool" where
  "slice_ok m s \<longleftrightarrow> sl_len s \<le> sl_cap s \<and> sl_cap s \<le> length (arrays m (sl_data s)) \<and>
     (sl_cap s = 0 \<or> sl_data s < abrk m)"

section \<open>Operations\<close>

definition alloc_array :: "'a amem \<Rightarrow> 'a list \<Rightarrow> 'a amem \<times> nat" where
  "alloc_array m xs =
     (m\<lparr>arrays := (arrays m)(abrk m := xs), abrk := Suc (abrk m)\<rparr>, abrk m)"

text \<open>\<open>make([]T, n, c)\<close>: a fresh array of \<open>c\<close> zero values.\<close>

definition slice_make :: "'a \<Rightarrow> 'a amem \<Rightarrow> nat \<Rightarrow> nat \<Rightarrow> 'a amem \<times> slice" where
  "slice_make z m n c =
     (let (m', a) = alloc_array m (replicate c z)
      in (m', \<lparr>sl_data = a, sl_len = n, sl_cap = c\<rparr>))"

text \<open>
  \<open>slices.Clone(s) = append(s[:0:0], s...)\<close>: appending nothing returns the header
  \<open>s[:0:0]\<close>, anything else goes to a fresh array because the capacity is 0.
\<close>

definition slice_clone :: "(nat \<Rightarrow> nat) \<Rightarrow> 'a \<Rightarrow> 'a amem \<Rightarrow> slice \<Rightarrow> 'a amem \<times> slice" where
  "slice_clone grow z m s =
     (if sl_len s = 0 then (m, s\<lparr>sl_cap := 0\<rparr>)
      else let n = sl_len s; c = max n (grow n);
               (m', a) = alloc_array m (elems m s @ replicate (c - n) z)
           in (m', \<lparr>sl_data = a, sl_len = n, sl_cap = c\<rparr>))"

text \<open>\<open>append(s, x)\<close>: in place when there is room, into a fresh array otherwise.\<close>

definition slice_append :: "(nat \<Rightarrow> nat) \<Rightarrow> 'a \<Rightarrow> 'a amem \<Rightarrow> slice \<Rightarrow> 'a \<Rightarrow> 'a amem \<times> slice" where
  "slice_append grow z m s x =
     (if sl_len s < sl_cap s
      then (m\<lparr>arrays := (arrays m)(sl_data s := (arrays m (sl_data s))[sl_len s := x])\<rparr>,
            s\<lparr>sl_len := Suc (sl_len s)\<rparr>)
      else let n = Suc (sl_len s); c = max n (grow n);
               (m', a) = alloc_array m (elems m s @ x # replicate (c - n) z)
           in (m', \<lparr>sl_data = a, sl_len = n, sl_cap = c\<rparr>))"

text \<open>
  The loop of \<open>slices.DeleteFunc\<close>: from the first deleted index on, every kept element is
  moved down to the write position \<open>i\<close>, inside the same array.
\<close>

definition compact_loop :: "('a \<Rightarrow> bool) \<Rightarrow> nat \<Rightarrow> nat \<Rightarrow> 'a list \<Rightarrow> nat \<Rightarrow> 'a list \<times> nat" where
  "compact_loop del from n arr i =
     fold (\<lambda>j (a, i). if del (a ! j) then (a, i) else (a[i := a ! j], Suc i)) [from..<n] (arr, i)"

definition slice_delete :: "('a \<Rightarrow> bool) \<Rightarrow> 'a \<Rightarrow> 'a amem \<Rightarrow> slice \<Rightarrow> 'a amem \<times> slice" where
  "slice_delete del z m s =
     (case index_func del (elems m s) of
        None \<Rightarrow> (m, s)
      | Some i \<Rightarrow>
          let (a, i') = compact_loop del (Suc i) (sl_len s) (arrays m (sl_data s)) i;
              a' = take i' a @ replicate (sl_len s - i') z @ drop (sl_len s) a
          in (m\<lparr>arrays := (arrays m)(sl_data s := a')\<rparr>, s\<lparr>sl_len := i'\<rparr>))"

section \<open>Freshness: what an operation may write\<close>

text \<open>
  \<open>fresh_only m m'\<close>: between \<open>m\<close> and \<open>m'\<close> nothing but arrays that did not exist in \<open>m\<close>
  was written.
\<close>

definition fresh_only :: "'a amem \<Rightarrow> 'a amem \<Rightarrow> bool" where
  "fresh_only m m' \<longleftrightarrow> abrk m \<le> abrk m' \<and> (\<forall>a<abrk m. arrays m' a = arrays m a)"

lemma fresh_only_refl [simp, intro]: "fresh_only m m"
  by (simp add: fresh_only_def)

lemma fresh_only_trans: "fresh_only m m' \<Longrightarrow> fresh_only m' m'' \<Longrightarrow> fresh_only m m''"
  by (auto simp: fresh_only_def)

lemma fresh_only_alloc [simp]: "fresh_only m (fst (alloc_array m xs))"
  by (simp add: fresh_only_def alloc_array_def)

text \<open>Every header taken before keeps reading the same elements.\<close>

lemma fresh_only_elems:
  assumes "fresh_only m m'" and "slice_ok m s"
  shows "elems m' s = elems m s"
proof (cases "sl_cap s = 0")
  case True
  with assms(2) show ?thesis by (simp add: elems_def slice_ok_def)
next
  case False
  with assms show ?thesis by (simp add: elems_def slice_ok_def fresh_only_def)
qed

lemma fresh_only_slice_ok:
  assumes "fresh_only m m'" and "slice_ok m s"
  shows "slice_ok m' s"
  using assms by (cases "sl_cap s = 0") (auto simp: slice_ok_def fresh_only_def)

section \<open>Characteristic equations\<close>

lemma nil_slice_simps [mem_simps, simp]:
  "elems m nil_slice = []" "slice_ok m nil_slice" "sl_len nil_slice = 0"
  by (simp_all add: nil_slice_def elems_def slice_ok_def)

lemma slice_ok_length [simp]: "slice_ok m s \<Longrightarrow> length (elems m s) = sl_len s"
  by (auto simp: slice_ok_def elems_def)

lemma slice_clone_facts:
  assumes "slice_ok m s" and "slice_clone grow z m s = (m', t)"
  shows "elems m' t = elems m s" and "slice_ok m' t" and "fresh_only m m'"
    and "sl_cap t = 0 \<or> sl_data t = abrk m"
  using assms
  by (auto simp: slice_clone_def alloc_array_def elems_def slice_ok_def fresh_only_def Let_def
        split: if_splits)

text \<open>
  An append through a header whose array is fresh (or which has no room) writes only fresh
  arrays.
\<close>

lemma slice_append_facts:
  assumes "slice_ok m s" and "slice_append grow z m s x = (m', t)"
  shows "elems m' t = elems m s @ [x]" and "slice_ok m' t"
  using assms
  by (auto simp: slice_append_def alloc_array_def elems_def slice_ok_def Let_def
        take_Suc_conv_app_nth split: if_splits)

lemma slice_append_fresh:
  assumes "fresh_only m0 m" and "sl_cap s = 0 \<or> sl_data s \<ge> abrk m0"
    and "slice_append grow z m s x = (m', t)"
  shows "fresh_only m0 m'"
  using assms
  by (auto simp: slice_append_def alloc_array_def fresh_only_def Let_def split: if_splits)


section \<open>The deletion loop\<close>

text \<open>
  The loop invariant at position \<open>k\<close>: the written prefix holds the kept elements of the
  first \<open>k\<close>, and nothing from \<open>k\<close> on has been touched.
\<close>

definition compact_inv :: "('a \<Rightarrow> bool) \<Rightarrow> 'a list \<Rightarrow> nat \<Rightarrow> 'a list \<times> nat \<Rightarrow> bool" where
  "compact_inv del xs k ai \<longleftrightarrow>
     (case ai of (a, i) \<Rightarrow> i \<le> k \<and> length a = length xs \<and> drop k a = drop k xs \<and>
        take i a = filter (\<lambda>x. \<not> del x) (take k xs))"

lemma compact_inv_step:
  assumes "compact_inv del xs k (a, i)" and "k < length xs"
  shows "compact_inv del xs (Suc k)
           (if del (a ! k) then (a, i) else (a[i := a ! k], Suc i))"
proof -
  from assms have i: "i \<le> k" and l: "length a = length xs" and d: "drop k a = drop k xs"
    and t: "take i a = filter (\<lambda>x. \<not> del x) (take k xs)"
    by (auto simp: compact_inv_def)
  from d l assms(2) have nth: "a ! k = xs ! k"
    by (metis Cons_nth_drop_Suc nth_via_drop)
  from d have d': "drop (Suc k) a = drop (Suc k) xs"
    by (metis drop_Suc drop_tl)
  from i l assms(2) have "take (Suc i) (a[i := a ! k]) = take i a @ [a ! k]"
    by (simp add: take_Suc_conv_app_nth)
  then show ?thesis
    using i l d' t nth assms(2) by (simp add: compact_inv_def take_Suc_conv_app_nth)
qed

lemma compact_loop_inv:
  assumes "compact_inv del xs from (arr, i)" and "from \<le> n" and "n \<le> length xs"
  shows "compact_inv del xs n (compact_loop del from n arr i)"
  using assms(2,3)
proof (induction n rule: dec_induct)
  case base
  with assms(1) show ?case by (simp add: compact_loop_def)
next
  case (step n)
  obtain a j where aj: "compact_loop del from n arr i = (a, j)" by fastforce
  with step have "compact_inv del xs n (a, j)" by simp
  from compact_inv_step [OF this] step.prems step.hyps aj show ?case
    by (simp add: compact_loop_def)
qed

text \<open>\<open>slices.DeleteFunc\<close> keeps exactly the elements not deleted, in order.\<close>

lemma slice_delete_facts:
  assumes ok: "slice_ok m s" and eq: "slice_delete del z m s = (m', t)"
  shows "elems m' t = filter (\<lambda>x. \<not> del x) (elems m s)" and "slice_ok m' t"
    and "sl_data t = sl_data s" and "abrk m' = abrk m"
    and "a \<noteq> sl_data s \<Longrightarrow> arrays m' a = arrays m a"
proof -
  let ?arr = "arrays m (sl_data s)" and ?n = "sl_len s"
  from ok have n: "?n \<le> length ?arr" by (simp add: slice_ok_def)
  have *: "elems m' t = filter (\<lambda>x. \<not> del x) (elems m s) \<and> slice_ok m' t \<and>
    sl_data t = sl_data s \<and> abrk m' = abrk m \<and> (a \<noteq> sl_data s \<longrightarrow> arrays m' a = arrays m a)"
  proof (cases "index_func del (elems m s)")
    case None
    with eq ok show ?thesis by (simp add: slice_delete_def filter_id_conv)
  next
    case (Some i)
    from index_func_SomeD [OF Some] ok have i: "i < ?n" and di: "del (?arr ! i)"
      by (auto simp: elems_def slice_ok_def)
    from index_func_filter_take [OF Some] i
    have "filter (\<lambda>x. \<not> del x) (take i ?arr) = take i ?arr"
      by (simp add: elems_def min_def)
    with i n di have "compact_inv del ?arr (Suc i) (?arr, i)"
      by (simp add: compact_inv_def take_Suc_conv_app_nth)
    from compact_loop_inv [OF this, of ?n] i n
    have inv: "compact_inv del ?arr ?n (compact_loop del (Suc i) ?n ?arr i)" by simp
    obtain b j where bj: "compact_loop del (Suc i) ?n ?arr i = (b, j)" by fastforce
    from inv bj n have "j \<le> ?n" "length b = length ?arr"
      and "take j b = filter (\<lambda>x. \<not> del x) (take ?n ?arr)"
      by (auto simp: compact_inv_def)
    moreover from this n have "length (filter (\<lambda>x. \<not> del x) (take ?n ?arr)) = j"
      by (metis length_take min.absorb2 order_trans)
    ultimately show ?thesis
      using eq Some bj ok n by (auto simp: slice_delete_def elems_def slice_ok_def)
  qed
  then show "elems m' t = filter (\<lambda>x. \<not> del x) (elems m s)" "slice_ok m' t"
    "sl_data t = sl_data s" "abrk m' = abrk m" "a \<noteq> sl_data s \<Longrightarrow> arrays m' a = arrays m a"
    by auto
qed

lemma slice_delete_fresh:
  assumes "slice_ok m s" and "fresh_only m0 m" and "sl_cap s = 0 \<or> sl_data s \<ge> abrk m0"
    and "slice_delete del z m s = (m', t)"
  shows "fresh_only m0 m'"
proof (cases "sl_cap s = 0")
  case True
  with assms(1) have "elems m s = []" by (simp add: slice_ok_def elems_def)
  with assms(2,4) show ?thesis by (simp add: slice_delete_def)
next
  case False
  with assms(3) have "abrk m0 \<le> sl_data s" by simp
  with slice_delete_facts(4,5) [OF assms(1,4)] assms(2) show ?thesis
    by (auto simp: fresh_only_def)
qed

end
