(* ===== verification/Registry.thy ===== *)
theory Registry
  imports RegistryApi GoSlice
begin

text \<open>
  The package \<open>internal/backend\<close> (registry.go): the set of backends behind an atomic pointer
  to a slice, replaced wholesale by every mutation.  The state holds the heap of backends (the
  pointers the slices contain refer to it), the store of backing arrays and the registry's
  atomic pointer.  The first half translates the operations at that level, where aliasing is
  visible; the second half proves that they keep the promise stated in the theory \<open>RegistryApi\<close>
  and interprets its locales.  Each operation is one atomic step here: the
  writers hold the mutex for their whole body and the readers load the pointer once.
\<close>

declare upt_Suc [simp del]

section \<open>State\<close>

type_synonym ptr = nat \<comment> \<open>address of a backend; 0 is nil\<close>

record world =
  cells :: "ptr \<Rightarrow> backend"
  brk :: ptr
  slices :: "ptr amem"
  backends :: "slice option" \<comment> \<open>\<open>Registry.backends\<close>; \<open>None\<close> is the nil atomic pointer\<close>

definition NewRegistry :: "slice \<Rightarrow> world \<Rightarrow> world" where
  "NewRegistry s w = w\<lparr>backends := Some s\<rparr>"

text \<open>\<open>&Backend{...}\<close>: a new cell.\<close>

definition alloc_backend :: "backend \<Rightarrow> world \<Rightarrow> world \<times> ptr" where
  "alloc_backend b w = (w\<lparr>cells := (cells w)(brk w := b), brk := Suc (brk w)\<rparr>, brk w)"

section \<open>Readers\<close>

definition ListBackends :: "world \<Rightarrow> slice" where
  "ListBackends w = (case backends w of Some s \<Rightarrow> s | None \<Rightarrow> nil_slice)"

text \<open>The pointers a caller of \<open>ListBackends\<close> iterates over.\<close>

definition listed :: "world \<Rightarrow> ptr list" where
  "listed w = elems (slices w) (ListBackends w)"

text \<open>The result is freshly allocated, so it is a value here: nobody else can write it.\<close>

definition ListHealthyBackends :: "world \<Rightarrow> ptr list" where
  "ListHealthyBackends w =
     (case backends w of
        None \<Rightarrow> []
      | Some s \<Rightarrow>
          fold (\<lambda>b acc. if Healthy (cells w b) then acc @ [b] else acc) (elems (slices w) s) [])"

section \<open>Writers\<close>

text \<open>\<open>slices.ContainsFunc\<close> with the URL comparison: it stops at the first match, and an
  element without a URL before it panics.\<close>

fun contains_url :: "world \<Rightarrow> string \<Rightarrow> ptr list \<Rightarrow> bool go" where
  "contains_url w str [] = Ret False"
| "contains_url w str (p # ps) =
     go_bind (url_ptr_String (URL (cells w p)))
       (\<lambda>s. if s = str then Ret True else contains_url w str ps)"

definition AddNewBackend ::
    "(nat \<Rightarrow> nat) \<Rightarrow> string \<Rightarrow> url \<Rightarrow> u64 \<Rightarrow> world \<Rightarrow> (world \<times> (string + string)) go" where
  "AddNewBackend grow uid u weight w =
     (let cur = ListBackends w
      in go_bind (contains_url w (url_String u) (elems (slices w) cur))
        (\<lambda>dup. if dup
          then Ret (w, Inl (''url '' @ url_String u @ '' is already registered''))
          else
            (let (w1, b) = alloc_backend (NewBackend uid (Some u) weight) w;
                 (m1, cl) = slice_clone grow 0 (slices w1) cur;
                 (m2, updated) = slice_append grow 0 m1 cl b
             in Ret (w1\<lparr>slices := m2, backends := Some updated\<rparr>, Inr (InstanceID (cells w1 b))))))"

definition RemoveInstanceByID :: "(nat \<Rightarrow> nat) \<Rightarrow> string \<Rightarrow> world \<Rightarrow> (world \<times> bool) go" where
  "RemoveInstanceByID grow instanceID w =
     (case backends w of
        None \<Rightarrow> Panic NilDereference
      | Some cur \<Rightarrow>
          if \<not> list_ex (\<lambda>p. InstanceID (cells w p) = instanceID) (elems (slices w) cur)
          then Ret (w, False)
          else
            (let (m1, cl) = slice_clone grow 0 (slices w) (ListBackends w);
                 (m2, updated) = slice_delete (\<lambda>p. InstanceID (cells w p) = instanceID) 0 m1 cl
             in Ret (w\<lparr>slices := m2, backends := Some updated\<rparr>, True)))"

definition SetHealthy :: "string \<Rightarrow> bool \<Rightarrow> world \<Rightarrow> world \<times> bool" where
  "SetHealthy instanceID v w =
     (case find (\<lambda>p. InstanceID (cells w p) = instanceID) (listed w) of
        None \<Rightarrow> (w, False)
      | Some p \<Rightarrow> (w\<lparr>cells := (cells w)(p := backend_SetHealthy (cells w p) v)\<rparr>, True))"

section \<open>Well-formed registries\<close>

text \<open>The published header is well formed, and its pointers are distinct live cells.\<close>

definition mem_ok :: "world \<Rightarrow> bool" where
  "mem_ok w \<longleftrightarrow> (case backends w of None \<Rightarrow> True | Some s \<Rightarrow> slice_ok (slices w) s) \<and>
     distinct (listed w) \<and> (\<forall>p\<in>set (listed w). 0 < p \<and> p < brk w) \<and> 0 < brk w"

definition abs_reg :: "world \<Rightarrow> backend list" where
  "abs_reg w = map (cells w) (listed w)"

text \<open>
  The full invariant: the registry was initialised, identifiers are distinct, every backend has
  a URL.
\<close>

definition reg_ok :: "world \<Rightarrow> bool" where
  "reg_ok w \<longleftrightarrow> backends w \<noteq> None \<and> mem_ok w \<and> distinct (map InstanceID (abs_reg w)) \<and>
     (\<forall>b\<in>set (abs_reg w). URL b \<noteq> None)"

definition weights_ok :: "world \<Rightarrow> bool" where
  "weights_ok w \<longleftrightarrow> (\<forall>b\<in>set (abs_reg w). weight_ok b)"

section \<open>Reading\<close>

lemma mem_ok_slice: "mem_ok w \<Longrightarrow> slice_ok (slices w) (ListBackends w)"
  by (auto simp: mem_ok_def ListBackends_def split: option.splits)

lemma mem_ok_listed:
  assumes "mem_ok w"
  shows "distinct (listed w)" and "p \<in> set (listed w) \<Longrightarrow> p < brk w" and "0 < brk w"
    and "brk w \<notin> set (listed w)" and "p \<in> set (listed w) \<Longrightarrow> 0 < p"
  using assms by (auto simp: mem_ok_def)

lemma fold_filter_append:
  "fold (\<lambda>x acc. if P x then acc @ [x] else acc) xs acc = acc @ filter P xs"
  by (induction xs arbitrary: acc) auto

lemma ListHealthyBackends_filter [reg_simps]:
  "ListHealthyBackends w = filter (\<lambda>p. Healthy (cells w p)) (listed w)"
  by (simp add: ListHealthyBackends_def listed_def ListBackends_def fold_filter_append
      split: option.splits)

lemma abs_reg_nth: "i < length (listed w) \<Longrightarrow> abs_reg w ! i = cells w (listed w ! i)"
  by (simp add: abs_reg_def)

lemma map_cells_healthy:
  "map (cells w) (ListHealthyBackends w) = filter Healthy (abs_reg w)"
  by (simp add: reg_simps abs_reg_def filter_map o_def)

lemma contains_url_total:
  assumes "\<forall>p\<in>set ps. URL (cells w p) \<noteq> None"
  shows "contains_url w str ps =
    Ret (\<exists>p\<in>set ps. map_option url_String (URL (cells w p)) = Some str)"
  using assms by (induction ps) (auto simp: url_ptr_String_def split: option.splits)

lemma contains_url_abs:
  assumes "\<forall>b\<in>set (abs_reg w). URL b \<noteq> None"
  shows "contains_url w str (listed w) =
    Ret (\<exists>b\<in>set (abs_reg w). map_option url_String (URL b) = Some str)"
  using assms by (subst contains_url_total) (auto simp: abs_reg_def)

section \<open>What each writer does to the memory\<close>

text \<open>A registration either changes nothing or publishes a fresh array that ends in a new cell.\<close>

lemma AddNewBackend_cases:
  assumes "mem_ok w" and "AddNewBackend grow uid u wt w = Ret (w', r)"
  obtains (dup) "w' = w" "r = Inl (''url '' @ url_String u @ '' is already registered'')"
      "contains_url w (url_String u) (listed w) = Ret True"
  | (new) "r = Inr uid" "fresh_only (slices w) (slices w')" "mem_ok w'" "backends w' \<noteq> None"
      "listed w' = listed w @ [brk w]"
      "cells w' = (cells w)(brk w := NewBackend uid (Some u) wt)" "brk w' = Suc (brk w)"
      "contains_url w (url_String u) (listed w) = Ret False"
proof -
  from assms(2) obtain d where d: "contains_url w (url_String u) (listed w) = Ret d"
    by (auto simp: AddNewBackend_def listed_def Let_def)
  show thesis
  proof (cases d)
    case True
    with assms(2) d show ?thesis by (intro dup) (auto simp: AddNewBackend_def listed_def Let_def)
  next
    case False
    obtain m1 cl where cl: "slice_clone grow 0 (slices w) (ListBackends w) = (m1, cl)" by fastforce
    obtain m2 up where up: "slice_append grow 0 m1 cl (brk w) = (m2, up)" by fastforce
    from assms(2) d False cl up
    have w': "w' = w\<lparr>cells := (cells w)(brk w := NewBackend uid (Some u) wt), brk := Suc (brk w),
        slices := m2, backends := Some up\<rparr>" and r: "r = Inr uid"
      by (auto simp: AddNewBackend_def listed_def alloc_backend_def Let_def)
    note c = slice_clone_facts [OF mem_ok_slice [OF assms(1)] cl]
    from c(4) have "sl_cap cl = 0 \<or> abrk (slices w) \<le> sl_data cl" by auto
    with c(3) have fr: "fresh_only (slices w) m2" by (rule slice_append_fresh [OF _ _ up])
    note a = slice_append_facts [OF c(2) up]
    from a(1) c(1) w' have l: "listed w' = listed w @ [brk w]"
      by (simp add: listed_def ListBackends_def)
    from a(2) w' l mem_ok_listed [OF assms(1)] have "mem_ok w'"
      by (auto simp: mem_ok_def less_Suc_eq)
    with r fr l w' d False show ?thesis by (intro new) simp_all
  qed
qed

lemma RemoveInstanceByID_cases:
  assumes "mem_ok w" and "RemoveInstanceByID grow i w = Ret (w', r)"
  obtains (absent) "w' = w" "\<not> r" "\<forall>b\<in>set (abs_reg w). InstanceID b \<noteq> i"
  | (removed) "r" "fresh_only (slices w) (slices w')" "mem_ok w'" "backends w' \<noteq> None"
      "listed w' = filter (\<lambda>p. InstanceID (cells w p) \<noteq> i) (listed w)"
      "cells w' = cells w" "brk w' = brk w" "\<exists>b\<in>set (abs_reg w). InstanceID b = i"
proof -
  from assms(2) obtain cur where cur: "backends w = Some cur"
    by (auto simp: RemoveInstanceByID_def split: option.splits)
  then have lb: "ListBackends w = cur" and ls: "listed w = elems (slices w) cur"
    by (simp_all add: listed_def ListBackends_def)
  show thesis
  proof (cases "list_ex (\<lambda>p. InstanceID (cells w p) = i) (listed w)")
    case False
    with assms(2) cur ls show ?thesis
      by (intro absent) (auto simp: RemoveInstanceByID_def abs_reg_def list_ex_eq_bex)
  next
    case True
    let ?del = "\<lambda>p. InstanceID (cells w p) = i"
    obtain m1 cl where cl: "slice_clone grow 0 (slices w) cur = (m1, cl)" by fastforce
    obtain m2 up where up: "slice_delete ?del 0 m1 cl = (m2, up)" by fastforce
    from assms(2) cur True cl up ls lb
    have w': "w' = w\<lparr>slices := m2, backends := Some up\<rparr>" and r
      by (auto simp: RemoveInstanceByID_def)
    from mem_ok_slice [OF assms(1)] lb have "slice_ok (slices w) cur" by simp
    note c = slice_clone_facts [OF this cl]
    from c(4) have "sl_cap cl = 0 \<or> abrk (slices w) \<le> sl_data cl" by auto
    then have fr: "fresh_only (slices w) m2" by (rule slice_delete_fresh [OF c(2,3) _ up])
    note d = slice_delete_facts(1,2) [OF c(2) up]
    from d(1) c(1) w' ls have l: "listed w' = filter (\<lambda>p. \<not> ?del p) (listed w)"
      by (simp add: listed_def ListBackends_def)
    from d(2) w' l mem_ok_listed [OF assms(1)] have "mem_ok w'" by (auto simp: mem_ok_def)
    moreover from True have "\<exists>b\<in>set (abs_reg w). InstanceID b = i"
      by (auto simp: list_ex_eq_bex abs_reg_def)
    ultimately show ?thesis using \<open>r\<close> fr l w' by (intro removed) simp_all
  qed
qed

lemma find_SomeD: "find P xs = Some x \<Longrightarrow> x \<in> set xs \<and> P x"
  by (induction xs) (auto split: if_splits)

lemma SetHealthy_cases:
  assumes "SetHealthy i v w = (w', r)"
  obtains (absent) "w' = w" "\<not> r" "\<forall>b\<in>set (abs_reg w). InstanceID b \<noteq> i"
  | (present) p where "r" "p \<in> set (listed w)" "InstanceID (cells w p) = i"
      "w' = w\<lparr>cells := (cells w)(p := backend_SetHealthy (cells w p) v)\<rparr>"
proof (cases "find (\<lambda>p. InstanceID (cells w p) = i) (listed w)")
  case None
  with assms show ?thesis
    by (intro absent) (auto simp: SetHealthy_def find_None_iff abs_reg_def)
next
  case (Some p)
  with assms find_SomeD [OF Some] show ?thesis by (intro present) (auto simp: SetHealthy_def)
qed

section \<open>The operations act on the content as promised\<close>

lemma contains_url_Ret_iff:
  assumes "reg_ok w" and "contains_url w str (listed w) = Ret d"
  shows "d \<longleftrightarrow> (\<exists>b\<in>set (abs_reg w). map_option url_String (URL b) = Some str)"
  using contains_url_abs [of w str] assms by (simp add: reg_ok_def)

lemma AddNewBackend_returns:
  assumes "reg_ok w"
  shows "\<exists>w' r. AddNewBackend grow uid u wt w = Ret (w', r)"
proof -
  have "contains_url w (url_String u) (listed w) =
      Ret (\<exists>b\<in>set (abs_reg w). map_option url_String (URL b) = Some (url_String u))"
    using assms by (intro contains_url_abs) (simp add: reg_ok_def)
  then show ?thesis
    by (auto simp: AddNewBackend_def listed_def Let_def split: prod.splits)
qed

lemma AddNewBackend_refines:
  assumes ok: "reg_ok w" and fresh: "uid \<notin> InstanceID ` set (abs_reg w)"
  shows "\<exists>w'. AddNewBackend grow uid u wt w = Ret (w', snd (spec_add uid u wt (abs_reg w))) \<and>
    reg_ok w' \<and> abs_reg w' = fst (spec_add uid u wt (abs_reg w))"
proof -
  from ok have mem: "mem_ok w" by (simp add: reg_ok_def)
  from AddNewBackend_returns [OF ok] obtain w' r
    where eq: "AddNewBackend grow uid u wt w = Ret (w', r)" by blast
  from mem eq show ?thesis
  proof (cases rule: AddNewBackend_cases)
    case dup
    from contains_url_Ret_iff [OF ok dup(3)] dup eq ok show ?thesis
      by (simp add: spec_add_def)
  next
    case new
    from new(5,6) mem_ok_listed(4) [OF mem]
    have a: "abs_reg w' = abs_reg w @ [NewBackend uid (Some u) wt]"
      by (simp add: abs_reg_def)
    with new ok fresh have "reg_ok w'" by (auto simp: reg_ok_def)
    with a new(1) eq contains_url_Ret_iff [OF ok new(8)] show ?thesis
      by (simp add: spec_add_def)
  qed
qed

lemma abs_reg_filter:
  "map (cells w) (filter (\<lambda>p. InstanceID (cells w p) \<noteq> i) (listed w)) =
   filter (\<lambda>b. InstanceID b \<noteq> i) (abs_reg w)"
  by (simp add: abs_reg_def filter_map o_def)

lemma RemoveInstanceByID_returns:
  "backends w \<noteq> None \<Longrightarrow> \<exists>w' r. RemoveInstanceByID grow i w = Ret (w', r)"
  by (auto simp: RemoveInstanceByID_def split_beta Let_def)

lemma RemoveInstanceByID_refines:
  assumes ok: "reg_ok w"
  shows "\<exists>w'. RemoveInstanceByID grow i w = Ret (w', snd (spec_remove i (abs_reg w))) \<and>
    reg_ok w' \<and> abs_reg w' = fst (spec_remove i (abs_reg w))"
proof -
  from ok have mem: "mem_ok w" and ini: "backends w \<noteq> None" by (simp_all add: reg_ok_def)
  from RemoveInstanceByID_returns [OF ini] obtain w' r
    where eq: "RemoveInstanceByID grow i w = Ret (w', r)" by blast
  from mem eq show ?thesis
  proof (cases rule: RemoveInstanceByID_cases)
    case absent
    from absent eq ok show ?thesis by (auto simp: spec_remove_def filter_id_conv)
  next
    case removed
    from removed(5,6) have a: "abs_reg w' = filter (\<lambda>b. InstanceID b \<noteq> i) (abs_reg w)"
      using abs_reg_filter by (simp add: abs_reg_def)
    with removed ok have "reg_ok w'"
      by (auto simp: reg_ok_def distinct_map intro: inj_on_subset)
    with a removed eq show ?thesis by (simp add: spec_remove_def)
  qed
qed

lemma SetHealthy_abs:
  assumes ok: "reg_ok w"
  shows "abs_reg (fst (SetHealthy i v w)) = map (mark i v) (abs_reg w)"
    and "snd (SetHealthy i v w) \<longleftrightarrow> (\<exists>b\<in>set (abs_reg w). InstanceID b = i)"
    and "listed (fst (SetHealthy i v w)) = listed w"
    and "backends (fst (SetHealthy i v w)) = backends w"
    and "brk (fst (SetHealthy i v w)) = brk w"
    and "slices (fst (SetHealthy i v w)) = slices w"
proof -
  obtain w' r where eq: "SetHealthy i v w = (w', r)" by fastforce
  then have "abs_reg w' = map (mark i v) (abs_reg w) \<and>
    (r \<longleftrightarrow> (\<exists>b\<in>set (abs_reg w). InstanceID b = i)) \<and> listed w' = listed w \<and>
    backends w' = backends w \<and> brk w' = brk w \<and> slices w' = slices w"
  proof (cases rule: SetHealthy_cases)
    case absent
    then have "map (mark i v) (abs_reg w) = abs_reg w" by (intro map_idI mark_same) auto
    with absent show ?thesis by auto
  next
    case (present p)
    have "cells w' q = mark i v (cells w q)" if "q \<in> set (listed w)" for q
    proof (cases "q = p")
      case True
      with present show ?thesis by (simp add: mark_def)
    next
      case False
      from ok that present(2) False have "InstanceID (cells w q) \<noteq> InstanceID (cells w p)"
        by (auto simp: reg_ok_def mem_ok_def abs_reg_def distinct_map inj_on_def)
      with present False show ?thesis by (simp add: mark_def)
    qed
    moreover from present have l: "listed w' = listed w"
      by (simp add: listed_def ListBackends_def)
    ultimately show ?thesis using present by (auto simp: abs_reg_def)
  qed
  with eq show "abs_reg (fst (SetHealthy i v w)) = map (mark i v) (abs_reg w)"
    "snd (SetHealthy i v w) \<longleftrightarrow> (\<exists>b\<in>set (abs_reg w). InstanceID b = i)"
    "listed (fst (SetHealthy i v w)) = listed w"
    "backends (fst (SetHealthy i v w)) = backends w" "brk (fst (SetHealthy i v w)) = brk w"
    "slices (fst (SetHealthy i v w)) = slices w"
    by simp_all
qed

lemma SetHealthy_reg_ok:
  assumes "reg_ok w"
  shows "reg_ok (fst (SetHealthy i v w))"
  using SetHealthy_abs [OF assms, of i v] assms
  by (auto simp: reg_ok_def mem_ok_def comp_def)

interpretation reg: backend_registry reg_ok abs_reg
    "AddNewBackend grow" "RemoveInstanceByID grow" SetHealthy for grow :: "nat \<Rightarrow> nat"
proof unfold_locales
  fix w :: world and b uid u wt i v
  show "reg_ok w \<Longrightarrow> distinct (map InstanceID (abs_reg w))" by (simp add: reg_ok_def)
  show "reg_ok w \<Longrightarrow> b \<in> set (abs_reg w) \<Longrightarrow> URL b \<noteq> None" by (simp add: reg_ok_def)
  show "reg_ok w \<Longrightarrow> uid \<notin> InstanceID ` set (abs_reg w) \<Longrightarrow>
    \<exists>w'. AddNewBackend grow uid u wt w = Ret (w', snd (spec_add uid u wt (abs_reg w))) \<and>
      reg_ok w' \<and> abs_reg w' = fst (spec_add uid u wt (abs_reg w))"
    by (rule AddNewBackend_refines)
  show "reg_ok w \<Longrightarrow>
    \<exists>w'. RemoveInstanceByID grow i w = Ret (w', snd (spec_remove i (abs_reg w))) \<and>
      reg_ok w' \<and> abs_reg w' = fst (spec_remove i (abs_reg w))"
    by (rule RemoveInstanceByID_refines)
  show "reg_ok w \<Longrightarrow> reg_ok (fst (SetHealthy i v w))" by (rule SetHealthy_reg_ok)
  show "reg_ok w \<Longrightarrow> abs_reg (fst (SetHealthy i v w)) = map (mark i v) (abs_reg w)"
    by (rule SetHealthy_abs)
  show "reg_ok w \<Longrightarrow>
    snd (SetHealthy i v w) \<longleftrightarrow> (\<exists>b\<in>set (abs_reg w). InstanceID b = i)"
    by (rule SetHealthy_abs)
qed

section \<open>Sequences of operations\<close>

text \<open>
  Any interleaving of the goroutines that use the registry is, because every operation takes
  effect in one step, a sequence of operations.  A panic leaves the registry as it was: the
  mutex is released by the deferred unlock and \<open>net/http\<close> recovers the handler.
\<close>

datatype reg_op = Register string url u64 | Deregister string | Report string bool

datatype reg_result = Registered "string + string" | Deregistered bool | Reported bool

fun reg_step :: "(nat \<Rightarrow> nat) \<Rightarrow> reg_op \<Rightarrow> world \<Rightarrow> world \<times> reg_result go" where
  "reg_step grow (Register uid u wt) w =
     (case AddNewBackend grow uid u wt w of
        Panic p \<Rightarrow> (w, Panic p) | Ret (w', r) \<Rightarrow> (w', Ret (Registered r)))"
| "reg_step grow (Deregister i) w =
     (case RemoveInstanceByID grow i w of
        Panic p \<Rightarrow> (w, Panic p) | Ret (w', r) \<Rightarrow> (w', Ret (Deregistered r)))"
| "reg_step grow (Report i v) w =
     (case SetHealthy i v w of (w', r) \<Rightarrow> (w', Ret (Reported r)))"

fun reg_run :: "(nat \<Rightarrow> nat) \<Rightarrow> reg_op list \<Rightarrow> world \<Rightarrow> world \<times> reg_result go list" where
  "reg_run grow [] w = (w, [])"
| "reg_run grow (op # ops) w =
     (let (w1, r) = reg_step grow op w; (w2, rs) = reg_run grow ops w1 in (w2, r # rs))"

fun spec_step :: "reg_op \<Rightarrow> backend list \<Rightarrow> backend list \<times> reg_result" where
  "spec_step (Register uid u wt) bs = map_prod id Registered (spec_add uid u wt bs)"
| "spec_step (Deregister i) bs = map_prod id Deregistered (spec_remove i bs)"
| "spec_step (Report i v) bs = map_prod id Reported (spec_set_healthy i v bs)"

fun spec_run :: "reg_op list \<Rightarrow> backend list \<Rightarrow> backend list \<times> reg_result list" where
  "spec_run [] bs = (bs, [])"
| "spec_run (op # ops) bs =
     (let (bs1, r) = spec_step op bs; (bs2, rs) = spec_run ops bs1 in (bs2, r # rs))"

fun op_uids :: "reg_op list \<Rightarrow> string list" where
  "op_uids [] = []"
| "op_uids (Register uid u wt # ops) = uid # op_uids ops"
| "op_uids (_ # ops) = op_uids ops"

lemma SetHealthy_mem_ok:
  assumes "mem_ok w"
  shows "mem_ok (fst (SetHealthy i v w))" and "slices (fst (SetHealthy i v w)) = slices w"
  using assms
  by (auto simp: SetHealthy_def mem_ok_def listed_def ListBackends_def split: option.splits)

lemma reg_step_memory:
  assumes "mem_ok w"
  shows "mem_ok (fst (reg_step grow op w)) \<and> fresh_only (slices w) (slices (fst (reg_step grow op w)))"
proof (cases op)
  case (Register uid u wt)
  show ?thesis
  proof (cases "AddNewBackend grow uid u wt w")
    case (Panic p)
    with Register assms show ?thesis by simp
  next
    case (Ret x)
    then have "AddNewBackend grow uid u wt w = Ret (fst x, snd x)" by simp
    with assms show ?thesis
      by (cases rule: AddNewBackend_cases) (use assms Ret Register in \<open>auto simp: split_beta\<close>)
  qed
next
  case (Deregister i)
  show ?thesis
  proof (cases "RemoveInstanceByID grow i w")
    case (Panic p)
    with Deregister assms show ?thesis by simp
  next
    case (Ret x)
    then have "RemoveInstanceByID grow i w = Ret (fst x, snd x)" by simp
    with assms show ?thesis
      by (cases rule: RemoveInstanceByID_cases)
        (use assms Ret Deregister in \<open>auto simp: split_beta\<close>)
  qed
next
  case (Report i v)
  with SetHealthy_mem_ok [OF assms, of i v] show ?thesis by (auto simp: split_beta)
qed

lemma reg_run_memory:
  "mem_ok w \<Longrightarrow> mem_ok (fst (reg_run grow ops w)) \<and>
     fresh_only (slices w) (slices (fst (reg_run grow ops w)))"
proof (induction ops arbitrary: w)
  case Nil
  then show ?case by simp
next
  case (Cons op ops)
  from reg_step_memory [OF Cons.prems] Cons.IH [of "fst (reg_step grow op w)"]
  show ?case by (auto simp: split_beta Let_def intro: fresh_only_trans)
qed

lemma reg_step_refines:
  assumes "reg_ok w" and "set (op_uids [op]) \<inter> InstanceID ` set (abs_reg w) = {}"
  shows "reg_ok (fst (reg_step grow op w)) \<and>
    abs_reg (fst (reg_step grow op w)) = fst (spec_step op (abs_reg w)) \<and>
    snd (reg_step grow op w) = Ret (snd (spec_step op (abs_reg w)))"
proof (cases op)
  case (Register uid u wt)
  with assms(2) have "uid \<notin> InstanceID ` set (abs_reg w)" by auto
  from reg.add_law [OF assms(1) this, of grow u wt] Register show ?thesis by auto
next
  case (Deregister i)
  from reg.remove_law [OF assms(1), of grow i] Deregister show ?thesis by auto
next
  case (Report i v)
  with reg.set_healthy_inv reg.set_healthy_view reg.set_healthy_found assms(1) show ?thesis
    by (simp add: split_beta spec_set_healthy_def)
qed

lemma spec_step_ids:
  "InstanceID ` set (fst (spec_step op bs)) \<subseteq> InstanceID ` set bs \<union> set (op_uids [op])"
  by (cases op) (auto simp: spec_add_def spec_remove_def spec_set_healthy_def)

lemma op_uids_Cons: "op_uids (op # ops) = op_uids [op] @ op_uids ops"
  by (cases op) auto

lemma reg_run_refines:
  "reg_ok w \<Longrightarrow> distinct (op_uids ops) \<Longrightarrow> set (op_uids ops) \<inter> InstanceID ` set (abs_reg w) = {} \<Longrightarrow>
   reg_ok (fst (reg_run grow ops w)) \<and>
   abs_reg (fst (reg_run grow ops w)) = fst (spec_run ops (abs_reg w)) \<and>
   snd (reg_run grow ops w) = map Ret (snd (spec_run ops (abs_reg w)))"
proof (induction ops arbitrary: w)
  case Nil
  then show ?case by simp
next
  case (Cons op ops)
  let ?w = "fst (reg_step grow op w)"
  from Cons.prems have d: "distinct (op_uids ops)" "set (op_uids ops) \<inter> set (op_uids [op]) = {}"
    and i: "set (op_uids [op]) \<inter> InstanceID ` set (abs_reg w) = {}"
      "set (op_uids ops) \<inter> InstanceID ` set (abs_reg w) = {}"
    by (auto simp: op_uids_Cons [of op ops])
  note s = reg_step_refines [OF Cons.prems(1) i(1), of grow]
  from s have "InstanceID ` set (abs_reg ?w) \<subseteq> InstanceID ` set (abs_reg w) \<union> set (op_uids [op])"
    using spec_step_ids by metis
  from this d(2) i(2) have "set (op_uids ops) \<inter> InstanceID ` set (abs_reg ?w) = {}"
    by (rule disjoint_subset_Un)
  with s d have "reg_ok (fst (reg_run grow ops ?w)) \<and>
      abs_reg (fst (reg_run grow ops ?w)) = fst (spec_run ops (abs_reg ?w)) \<and>
      snd (reg_run grow ops ?w) = map Ret (snd (spec_run ops (abs_reg ?w)))"
    by (intro Cons.IH) simp_all
  with s show ?case by (simp add: split_beta Let_def)
qed

text \<open>The cells of registered backends: what a pointer taken earlier can see change.\<close>

lemma reg_step_cells:
  assumes "mem_ok w" and "p < brk w"
  shows "brk w \<le> brk (fst (reg_step grow op w))"
    and "InstanceID (cells (fst (reg_step grow op w)) p) = InstanceID (cells w p)"
    and "URL (cells (fst (reg_step grow op w)) p) = URL (cells w p)"
    and "Weight (cells (fst (reg_step grow op w)) p) = Weight (cells w p)"
    and "ActiveConnectionsNo (cells (fst (reg_step grow op w)) p) = ActiveConnectionsNo (cells w p)"
proof -
  have "brk w \<le> brk (fst (reg_step grow op w)) \<and>
    (\<exists>v. cells (fst (reg_step grow op w)) p = cells w p \<or>
         cells (fst (reg_step grow op w)) p = backend_SetHealthy (cells w p) v)"
  proof (cases op)
    case (Register uid u wt)
    show ?thesis
    proof (cases "AddNewBackend grow uid u wt w")
      case (Panic q)
      with Register show ?thesis by simp
    next
      case (Ret x)
      then have "AddNewBackend grow uid u wt w = Ret (fst x, snd x)" by simp
      with assms(1) show ?thesis
        by (cases rule: AddNewBackend_cases) (use assms(2) Ret Register in \<open>auto simp: split_beta\<close>)
    qed
  next
    case (Deregister i)
    show ?thesis
    proof (cases "RemoveInstanceByID grow i w")
      case (Panic q)
      with Deregister show ?thesis by simp
    next
      case (Ret x)
      then have "RemoveInstanceByID grow i w = Ret (fst x, snd x)" by simp
      with assms(1) show ?thesis
        by (cases rule: RemoveInstanceByID_cases) (use Ret Deregister in \<open>auto simp: split_beta\<close>)
    qed
  next
    case (Report i v)
    obtain w' r where eq: "SetHealthy i v w = (w', r)" by fastforce
    then show ?thesis by (cases rule: SetHealthy_cases) (use Report eq in auto)
  qed
  then show "brk w \<le> brk (fst (reg_step grow op w))"
    "InstanceID (cells (fst (reg_step grow op w)) p) = InstanceID (cells w p)"
    "URL (cells (fst (reg_step grow op w)) p) = URL (cells w p)"
    "Weight (cells (fst (reg_step grow op w)) p) = Weight (cells w p)"
    "ActiveConnectionsNo (cells (fst (reg_step grow op w)) p) = ActiveConnectionsNo (cells w p)"
    by auto
qed

lemma reg_run_cells:
  "mem_ok w \<Longrightarrow> p < brk w \<Longrightarrow>
     InstanceID (cells (fst (reg_run grow ops w)) p) = InstanceID (cells w p) \<and>
     URL (cells (fst (reg_run grow ops w)) p) = URL (cells w p) \<and>
     Weight (cells (fst (reg_run grow ops w)) p) = Weight (cells w p) \<and>
     ActiveConnectionsNo (cells (fst (reg_run grow ops w)) p) = ActiveConnectionsNo (cells w p)"
proof (induction ops arbitrary: w)
  case Nil
  then show ?case by simp
next
  case (Cons op ops)
  note c = reg_step_cells [OF Cons.prems, of grow op]
  from Cons.prems(2) c(1) have "p < brk (fst (reg_step grow op w))" by simp
  with reg_step_memory [OF Cons.prems(1), of grow op]
  have "InstanceID (cells (fst (reg_run grow ops (fst (reg_step grow op w)))) p) =
      InstanceID (cells (fst (reg_step grow op w)) p) \<and>
    URL (cells (fst (reg_run grow ops (fst (reg_step grow op w)))) p) =
      URL (cells (fst (reg_step grow op w)) p) \<and>
    Weight (cells (fst (reg_run grow ops (fst (reg_step grow op w)))) p) =
      Weight (cells (fst (reg_step grow op w)) p) \<and>
    ActiveConnectionsNo (cells (fst (reg_run grow ops (fst (reg_step grow op w)))) p) =
      ActiveConnectionsNo (cells (fst (reg_step grow op w)) p)"
    by (intro Cons.IH) simp_all
  with c show ?case by (simp add: split_beta Let_def)
qed

section \<open>A registry built from a list of backends\<close>

definition empty_world :: world where
  "empty_world = \<lparr>cells = (\<lambda>_. NewBackend [] None 0), brk = 1,
     slices = \<lparr>arrays = (\<lambda>_. []), abrk = 1\<rparr>, backends = None\<rparr>"

fun alloc_backends :: "backend list \<Rightarrow> world \<Rightarrow> world \<times> ptr list" where
  "alloc_backends [] w = (w, [])"
| "alloc_backends (b # bs) w =
     (let (w1, p) = alloc_backend b w; (w2, ps) = alloc_backends bs w1 in (w2, p # ps))"

definition boot :: "backend list \<Rightarrow> world" where
  "boot bs =
     (let (w, ps) = alloc_backends bs empty_world; (m, a) = alloc_array (slices w) ps
      in NewRegistry \<lparr>sl_data = a, sl_len = length ps, sl_cap = length ps\<rparr> (w\<lparr>slices := m\<rparr>))"

lemma alloc_backends_facts:
  assumes "alloc_backends bs w = (w', ps)"
  shows "ps = [brk w..<brk w + length bs] \<and> brk w' = brk w + length bs \<and> slices w' = slices w \<and>
    map (cells w') ps = bs \<and> (\<forall>p<brk w. cells w' p = cells w p)"
  using assms
proof (induction bs arbitrary: w w' ps)
  case Nil
  then show ?case by simp
next
  case (Cons b bs)
  obtain w1 qs where r: "alloc_backends bs (fst (alloc_backend b w)) = (w1, qs)" by fastforce
  from Cons.prems r have e: "w' = w1" "ps = brk w # qs"
    by (auto simp: alloc_backend_def Let_def split_beta)
  from Cons.IH [OF r] show ?case
    by (auto simp: e alloc_backend_def upt_conv_Cons)
qed

lemma boot_facts:
  shows "abs_reg (boot bs) = bs" and "mem_ok (boot bs)" and "listed (boot bs) = [1..<Suc (length bs)]"
    and "backends (boot bs) \<noteq> None" and "brk (boot bs) = Suc (length bs)"
proof -
  obtain w ps where r: "alloc_backends bs empty_world = (w, ps)" by fastforce
  have e: "brk empty_world = 1" "abrk (slices empty_world) = 1" by (simp_all add: empty_world_def)
  note f = alloc_backends_facts [OF r, unfolded e]
  let ?s = "\<lparr>sl_data = abrk (slices w), sl_len = length ps, sl_cap = length ps\<rparr>"
  have b: "boot bs = w\<lparr>slices := fst (alloc_array (slices w) ps), backends := Some ?s\<rparr>"
    by (simp add: boot_def r alloc_array_def NewRegistry_def)
  from f have l: "listed (boot bs) = [1..<Suc (length bs)]"
    by (auto simp: b alloc_array_def listed_def ListBackends_def elems_def)
  with f show "abs_reg (boot bs) = bs" "mem_ok (boot bs)" "listed (boot bs) = [1..<Suc (length bs)]"
    "backends (boot bs) \<noteq> None" "brk (boot bs) = Suc (length bs)"
    by (auto simp: b alloc_array_def abs_reg_def mem_ok_def slice_ok_def)
qed

lemma reg_ok_boot:
  "reg_ok (boot bs) \<longleftrightarrow> distinct (map InstanceID bs) \<and> (\<forall>b\<in>set bs. URL b \<noteq> None)"
  by (auto simp: reg_ok_def boot_facts)

text \<open>Three backends, as \<open>config.yaml\<close> has them.\<close>

definition sample_backends :: "backend list" where
  "sample_backends =
     [NewBackend ''a'' (Some (mk_url ''http'' ''127.0.0.1:2115'' [])) 2,
      NewBackend ''b'' (Some (mk_url ''http'' ''127.0.0.1:2215'' [])) 3,
      NewBackend ''c'' (Some (mk_url ''http'' ''127.0.0.1:2315'' [])) 5]"

lemma sample_ok: "reg_ok (boot sample_backends)" "mem_ok (boot sample_backends)"
  by (simp_all add: reg_ok_boot boot_facts) (simp add: sample_backends_def)

section \<open>Properties\<close>

text \<open>
  C5. Snapshots are immutable: whatever sequence of registrations, deregistrations and health
  reports runs after a reader obtained a slice, the slice keeps reading the same pointers, for
  any growth policy of the run time.  (The comment on \<open>Registry\<close>: the slice is replaced
  wholesale and never modified in place.)
\<close>

theorem snapshots_never_change:
  assumes "mem_ok w" and "slice_ok (slices w) s"
  shows "elems (slices (fst (reg_run grow ops w))) s = elems (slices w) s"
  using reg_run_memory [OF assms(1), of grow ops] assms(2) by (blast intro: fresh_only_elems)

theorem snapshots_never_change_witness:
  "elems (slices (fst (reg_run (\<lambda>n. 2 * n) [Deregister ''a'', Report ''b'' True, Deregister ''c'']
     (boot sample_backends)))) (ListBackends (boot sample_backends)) = [1, 2, 3]"
proof -
  have "elems (slices (boot sample_backends)) (ListBackends (boot sample_backends)) = [1, 2, 3]"
    using boot_facts(3) [of sample_backends]
    by (simp add: listed_def sample_backends_def) (simp add: upt_rec)
  with snapshots_never_change [OF sample_ok(2) mem_ok_slice [OF sample_ok(2)]] show ?thesis
    by (rule trans)
qed

text \<open>
  C6. Every sequence of registry operations, with unused identifiers for the registrations,
  returns exactly the results of the same sequence on a plain list of backends, leaves the
  registry holding exactly that list, and keeps the registry's invariant (distinct identifiers,
  live distinct pointers, a URL for every backend); no operation panics.
\<close>

theorem registry_refines_list:
  assumes "reg_ok w" and "distinct (op_uids ops)"
    and "set (op_uids ops) \<inter> InstanceID ` set (abs_reg w) = {}"
  shows "abs_reg (fst (reg_run grow ops w)) = fst (spec_run ops (abs_reg w)) \<and>
    snd (reg_run grow ops w) = map Ret (snd (spec_run ops (abs_reg w))) \<and>
    reg_ok (fst (reg_run grow ops w))"
  using reg_run_refines [OF assms, of grow] by simp

theorem registry_refines_list_witness:
  "map InstanceID (abs_reg (fst (reg_run (\<lambda>n. n)
      [Register ''d'' (mk_url ''http'' ''127.0.0.1:2415'' []) 1, Deregister ''b'']
      (boot sample_backends)))) = [''a'', ''c'', ''d'']"
proof -
  let ?ops = "[Register ''d'' (mk_url ''http'' ''127.0.0.1:2415'' []) 1, Deregister ''b'']"
  have "abs_reg (fst (reg_run (\<lambda>n. n) ?ops (boot sample_backends))) =
      fst (spec_run ?ops sample_backends)"
    using registry_refines_list [OF sample_ok(1), of ?ops "\<lambda>n. n"]
    by (simp add: boot_facts sample_backends_def)
  moreover have "map InstanceID (fst (spec_run ?ops sample_backends)) = [''a'', ''c'', ''d'']"
    by code_simp
  ultimately show ?thesis by simp
qed

text \<open>
  A pointer held across registry operations keeps denoting the same backend: its
  identifier, URL, weight and connection count are untouched by any sequence of registrations,
  deregistrations and health reports, even once it is deregistered.
\<close>

theorem held_pointer_stable:
  assumes "mem_ok w" and "p \<in> set (listed w)"
  shows "InstanceID (cells (fst (reg_run grow ops w)) p) = InstanceID (cells w p) \<and>
    URL (cells (fst (reg_run grow ops w)) p) = URL (cells w p) \<and>
    Weight (cells (fst (reg_run grow ops w)) p) = Weight (cells w p) \<and>
    ActiveConnectionsNo (cells (fst (reg_run grow ops w)) p) = ActiveConnectionsNo (cells w p)"
  by (rule reg_run_cells [OF assms(1) mem_ok_listed(2) [OF assms]])

theorem held_pointer_stable_witness:
  "InstanceID (cells (fst (reg_run (\<lambda>n. n) [Deregister ''a'', Report ''b'' True]
     (boot sample_backends))) 1) = ''a''"
proof -
  have "1 \<in> set (listed (boot sample_backends))" by (simp add: boot_facts sample_backends_def)
  moreover have "InstanceID (cells (boot sample_backends) 1) = ''a''" by code_simp
  ultimately show ?thesis
    using held_pointer_stable [OF sample_ok(2), of 1 "\<lambda>n. n" "[Deregister ''a'', Report ''b'' True]"]
    by (simp del: reg_run.simps)
qed

text \<open>
  On the zero value of \<open>Registry\<close>, which the readers and \<open>AddNewBackend\<close> support (they
  check for the nil pointer), \<open>RemoveInstanceByID\<close> dereferences the nil pointer and panics;
  the same registry serves a listing and accepts a registration.
\<close>

theorem remove_panics_on_zero_registry:
  assumes "backends w = None"
  shows "RemoveInstanceByID grow i w = Panic NilDereference \<and> listed w = [] \<and>
    ListHealthyBackends w = [] \<and> (\<exists>w'. AddNewBackend grow uid u wt w = Ret (w', Inr uid))"
proof -
  from assms have l: "listed w = []" by (simp add: listed_def ListBackends_def)
  moreover from assms l have "\<exists>w'. AddNewBackend grow uid u wt w = Ret (w', Inr uid)"
    by (simp add: AddNewBackend_def ListBackends_def alloc_backend_def slice_clone_def
        slice_append_def alloc_array_def Let_def)
  ultimately show ?thesis using assms by (simp add: RemoveInstanceByID_def reg_simps)
qed

theorem remove_panics_on_zero_registry_witness:
  "RemoveInstanceByID (\<lambda>n. n) ''a'' empty_world = Panic NilDereference"
  using remove_panics_on_zero_registry [of empty_world "\<lambda>n. n" "''a''"]
  by (simp add: empty_world_def)

end
