(* ===== verification/Selectors.thy ===== *)
theory Selectors
  imports Registry
begin

text \<open>
  The package \<open>internal/balancer\<close>: the weighted random, hash and least-connections selectors
  (the round-robin selector has a theory of its own).  All three read the healthy backends of
  the registry once and choose among them; the draw of the random generator is an argument.
  Weights and picks are 64-bit words as in the code, so that the sum of the weights can wrap and
  the modulus can be zero; the theorems say when neither happens.
\<close>

section \<open>Types and the contract of a selector\<close>

datatype sel_error = ErrNoBackends

text \<open>
  What the proxy relies on, whichever strategy was configured: with nothing routable the
  selector says so, otherwise it returns a routable backend.  \<open>adm\<close> says which inputs of one
  call (a draw, a key, a counter) the contract is about.
\<close>

locale selector =
  fixes ok :: "'w \<Rightarrow> bool"
    and adm :: "'e \<Rightarrow> 'w \<Rightarrow> bool"
    and routable :: "'w \<Rightarrow> ptr list"
    and get :: "'e \<Rightarrow> 'w \<Rightarrow> (sel_error + ptr) go"
  assumes get_none: "ok w \<Longrightarrow> routable w = [] \<Longrightarrow> get e w = Ret (Inl ErrNoBackends)"
    and get_some: "ok w \<Longrightarrow> adm e w \<Longrightarrow> routable w \<noteq> [] \<Longrightarrow>
      \<exists>p\<in>set (routable w). get e w = Ret (Inr p)"
begin

lemma get_returns: "ok w \<Longrightarrow> adm e w \<Longrightarrow> \<exists>r. get e w = Ret r"
  using get_none [of w e] get_some [of w e] by (cases "routable w = []") auto

lemma get_error_iff: "ok w \<Longrightarrow> adm e w \<Longrightarrow> get e w = Ret (Inl err) \<longleftrightarrow> routable w = []"
  using get_none [of w e] get_some [of w e] by (cases "routable w = []"; cases err) auto

lemma get_routable: "ok w \<Longrightarrow> adm e w \<Longrightarrow> get e w = Ret (Inr p) \<Longrightarrow> p \<in> set (routable w)"
  using get_none [of w e] get_some [of w e] by (cases "routable w = []") auto

end

section \<open>Weight bands\<close>

definition total_weight :: "(ptr \<Rightarrow> backend) \<Rightarrow> ptr list \<Rightarrow> u64" where
  "total_weight h bs = fold (\<lambda>b total. total + Weight (h b)) bs 0"

text \<open>The walk both weighted selectors do: the first backend whose weight exceeds what is left
  of the pick.\<close>

fun weight_walk :: "(ptr \<Rightarrow> backend) \<Rightarrow> ptr list \<Rightarrow> u64 \<Rightarrow> ptr option" where
  "weight_walk h [] pick = None"
| "weight_walk h (b # bs) pick =
     (if pick < Weight (h b) then Some b else weight_walk h bs (pick - Weight (h b)))"

definition walk_or_last :: "(ptr \<Rightarrow> backend) \<Rightarrow> ptr list \<Rightarrow> u64 \<Rightarrow> ptr" where
  "walk_or_last h bs pick = (case weight_walk h bs pick of Some b \<Rightarrow> b | None \<Rightarrow> last bs)"

section \<open>Random\<close>

text \<open>\<open>rand.Uint64N(n)\<close>: panics for 0; \<open>draw n\<close> is the number drawn.\<close>

definition Uint64N :: "(u64 \<Rightarrow> u64) \<Rightarrow> u64 \<Rightarrow> u64 go" where
  "Uint64N draw n =
     (if n = 0 then Panic (InvalidArgument ''invalid argument to Uint64N'') else Ret (draw n))"

definition Random_GetServer :: "(u64 \<Rightarrow> u64) \<Rightarrow> world \<Rightarrow> (sel_error + ptr) go" where
  "Random_GetServer draw w =
     (let backends = ListHealthyBackends w
      in if length backends = 0 then Ret (Inl ErrNoBackends)
         else go_bind (Uint64N draw (total_weight (cells w) backends))
           (\<lambda>pick. Ret (Inr (walk_or_last (cells w) backends pick))))"

section \<open>Hash\<close>

text \<open>\<open>fnv.New32a\<close> over the bytes of the key.\<close>

definition fnv32a :: "string \<Rightarrow> u32" where
  "fnv32a key = fold (\<lambda>c h. (xor h (word_of_nat (of_char c))) * 16777619) key 2166136261"

definition Hash_GetServerForKey :: "string \<Rightarrow> world \<Rightarrow> (sel_error + ptr) go" where
  "Hash_GetServerForKey key w =
     (let backends = ListHealthyBackends w
      in if length backends = 0 then Ret (Inl ErrNoBackends)
         else let total = total_weight (cells w) backends
           in if total = 0 then Panic IntegerDivideByZero
              else let pick = ucast (fnv32a key) mod total
                in Ret (Inr (walk_or_last (cells w) backends pick)))"

section \<open>Least connections\<close>

text \<open>\<open>slices.MinFunc\<close> keeps the first of the minimal elements; it panics on an empty slice,
  which the caller has excluded.\<close>

definition MinFunc :: "('a \<Rightarrow> 'a \<Rightarrow> int) \<Rightarrow> 'a list \<Rightarrow> 'a" where
  "MinFunc cmp xs = fold (\<lambda>x m. if cmp x m < 0 then x else m) (tl xs) (hd xs)"

definition cmp_Compare :: "u64 \<Rightarrow> u64 \<Rightarrow> int" where
  "cmp_Compare x y = (if x < y then -1 else if y < x then 1 else 0)"

text \<open>\<open>uint64(int32)\<close> extends the sign.\<close>

definition load_cmp :: "backend \<Rightarrow> backend \<Rightarrow> int" where
  "load_cmp a b =
     (let aConns = (scast (ActiveConnectionsNo a) :: u64);
          bConns = (scast (ActiveConnectionsNo b) :: u64)
      in cmp_Compare (aConns * Weight b) (bConns * Weight a))"

definition LeastConnections_GetServer :: "world \<Rightarrow> (sel_error + ptr) go" where
  "LeastConnections_GetServer w =
     (let backends = ListHealthyBackends w
      in if length backends = 0 then Ret (Inl ErrNoBackends)
         else Ret (Inr (MinFunc (\<lambda>a b. load_cmp (cells w a) (cells w b)) backends)))"

section \<open>Totals\<close>

definition weight_of :: "(ptr \<Rightarrow> backend) \<Rightarrow> ptr \<Rightarrow> nat" where
  "weight_of h p = unat (Weight (h p))"

definition sel_ok :: "world \<Rightarrow> bool" where
  "sel_ok w \<longleftrightarrow> mem_ok w \<and> weights_ok w \<and> length (listed w) \<le> 2 ^ 44"

lemma total_weight_sum: "total_weight h bs = sum_list (map (\<lambda>b. Weight (h b)) bs)"
proof -
  have "fold (\<lambda>b total. total + Weight (h b)) bs t = t + sum_list (map (\<lambda>b. Weight (h b)) bs)" for t
    by (induction bs arbitrary: t) (auto simp: algebra_simps)
  then show ?thesis by (simp add: total_weight_def)
qed

lemma unat_total_weight:
  assumes "sum_list (map (weight_of h) bs) < 2 ^ 64"
  shows "unat (total_weight h bs) = sum_list (map (weight_of h) bs)"
proof -
  have "weight_of h = (\<lambda>b. unat (Weight (h b)))" by (simp add: fun_eq_iff weight_of_def)
  with unat_sum_list_no_wrap [of "map (\<lambda>b. Weight (h b)) bs"] assms show ?thesis
    by (simp add: total_weight_sum o_def)
qed

lemma sum_list_bounds:
  assumes "\<forall>x\<in>set xs. f x \<le> (c::nat)"
  shows "sum_list (map f xs) \<le> length xs * c"
  using assms by (induction xs) auto

lemma healthy_subset: "set (ListHealthyBackends w) \<subseteq> set (listed w)"
  by (auto simp: reg_simps)

lemma healthy_distinct: "mem_ok w \<Longrightarrow> distinct (ListHealthyBackends w)"
  by (simp add: reg_simps mem_ok_def)

lemma sel_ok_weights:
  assumes "sel_ok w" and "p \<in> set (listed w)"
  shows "1 \<le> weight_of (cells w) p" and "weight_of (cells w) p \<le> 1000000"
  using assms by (auto simp: sel_ok_def weights_ok_def abs_reg_def weight_ok_def weight_of_def)

lemma sel_ok_total:
  assumes "sel_ok w"
  shows "sum_list (map (weight_of (cells w)) (ListHealthyBackends w)) < 2 ^ 64"
    and "unat (total_weight (cells w) (ListHealthyBackends w)) =
      sum_list (map (weight_of (cells w)) (ListHealthyBackends w))"
proof -
  let ?bs = "ListHealthyBackends w"
  have "sum_list (map (weight_of (cells w)) ?bs) \<le> length ?bs * 1000000"
    using sel_ok_weights(2) [OF assms] healthy_subset by (intro sum_list_bounds) blast
  also have "length ?bs \<le> length (listed w)" by (simp add: reg_simps)
  then have "length ?bs * 1000000 \<le> 2 ^ 44 * 1000000"
    using assms by (simp add: sel_ok_def)
  finally show "sum_list (map (weight_of (cells w)) ?bs) < 2 ^ 64" by simp
  then show "unat (total_weight (cells w) ?bs) = sum_list (map (weight_of (cells w)) ?bs)"
    by (rule unat_total_weight)
qed

lemma sel_ok_total_pos:
  assumes "sel_ok w" and "ListHealthyBackends w \<noteq> []"
  shows "total_weight (cells w) (ListHealthyBackends w) \<noteq> 0"
proof -
  from assms(2) obtain p where p: "p \<in> set (ListHealthyBackends w)" by (cases "ListHealthyBackends w") auto
  then have "1 \<le> weight_of (cells w) p"
    using sel_ok_weights(1) [OF assms(1)] healthy_subset by blast
  also from p have "weight_of (cells w) p \<le> sum_list (map (weight_of (cells w)) (ListHealthyBackends w))"
    by (intro sum_list_member_le_nat) auto
  finally show ?thesis
    using sel_ok_total(2) [OF assms(1)] by (metis not_one_le_zero unat_0)
qed

section \<open>The walk lands in the band of the pick\<close>

definition band :: "(ptr \<Rightarrow> backend) \<Rightarrow> ptr list \<Rightarrow> nat \<Rightarrow> nat" where
  "band h bs i = sum_list (map (weight_of h) (take i bs))"

lemma band_Suc: "i < length bs \<Longrightarrow> band h bs (Suc i) = band h bs i + weight_of h (bs ! i)"
  by (simp add: band_def take_Suc_conv_app_nth)

lemma weight_walk_band:
  "i < length bs \<Longrightarrow> band h bs i \<le> unat pick \<Longrightarrow> unat pick < band h bs (Suc i) \<Longrightarrow>
   weight_walk h bs pick = Some (bs ! i)"
proof (induction bs arbitrary: i pick)
  case Nil
  then show ?case by simp
next
  case (Cons b bs)
  show ?case
  proof (cases i)
    case 0
    with Cons.prems show ?thesis by (simp add: band_def weight_of_def word_less_nat_alt)
  next
    case (Suc j)
    with Cons.prems have ge: "weight_of h b \<le> unat pick" by (simp add: band_def)
    then have sub: "unat (pick - Weight (h b)) = unat pick - weight_of h b"
      by (simp add: unat_sub word_le_nat_alt weight_of_def)
    from Cons.prems Suc ge have "weight_walk h bs (pick - Weight (h b)) = Some (bs ! j)"
      by (intro Cons.IH) (auto simp: band_def sub)
    with ge Suc show ?thesis by (simp add: weight_of_def word_less_nat_alt not_less)
  qed
qed

lemma band_exists: "n < sum_list (map (weight_of h) bs) \<Longrightarrow>
    \<exists>i<length bs. band h bs i \<le> n \<and> n < band h bs (Suc i)"
proof (induction bs rule: rev_induct)
  case Nil
  then show ?case by simp
next
  case (snoc b bs)
  show ?case
  proof (cases "n < sum_list (map (weight_of h) bs)")
    case True
    with snoc.IH obtain i where "i < length bs" "band h bs i \<le> n" "n < band h bs (Suc i)" by blast
    then show ?thesis by (intro exI [of _ i]) (simp add: band_def)
  next
    case False
    with snoc.prems show ?thesis by (intro exI [of _ "length bs"]) (simp add: band_def)
  qed
qed

lemma walk_or_last_cases:
  assumes "unat pick < sum_list (map (weight_of h) bs)"
  obtains i where "i < length bs" "band h bs i \<le> unat pick" "unat pick < band h bs (Suc i)"
    "walk_or_last h bs pick = bs ! i"
  using band_exists [OF assms] weight_walk_band by (auto simp: walk_or_last_def)

lemma band_mono: "i \<le> j \<Longrightarrow> band h bs i \<le> band h bs j"
proof (induction j rule: dec_induct)
  case (step n)
  moreover have "band h bs n \<le> band h bs (Suc n)"
    by (cases "n < length bs") (simp_all only: band_Suc, simp_all add: band_def)
  ultimately show ?case by simp
qed simp

lemma walk_or_last_iff:
  assumes "distinct bs" and "i < length bs" and "unat pick < sum_list (map (weight_of h) bs)"
  shows "walk_or_last h bs pick = bs ! i \<longleftrightarrow> band h bs i \<le> unat pick \<and> unat pick < band h bs (Suc i)"
proof
  assume eq: "walk_or_last h bs pick = bs ! i"
  from assms(3) show "band h bs i \<le> unat pick \<and> unat pick < band h bs (Suc i)"
  proof (cases rule: walk_or_last_cases)
    case (1 j)
    with eq assms(1,2) have "i = j" by (simp add: nth_eq_iff_index_eq)
    with 1 show ?thesis by simp
  qed
next
  assume "band h bs i \<le> unat pick \<and> unat pick < band h bs (Suc i)"
  with assms(2) show "walk_or_last h bs pick = bs ! i" by (simp add: walk_or_last_def weight_walk_band)
qed

lemma walk_or_last_member: "bs \<noteq> [] \<Longrightarrow> walk_or_last h bs pick \<in> set bs"
proof -
  have "weight_walk h bs pick = Some b \<Longrightarrow> b \<in> set bs" for b
    by (induction bs arbitrary: pick) (auto split: if_splits)
  then show "bs \<noteq> [] \<Longrightarrow> walk_or_last h bs pick \<in> set bs"
    by (auto simp: walk_or_last_def split: option.splits)
qed

section \<open>The minimum\<close>

text \<open>
  \<open>MinFunc\<close> returns the first minimal element, for any comparison that orders the elements
  like a total preorder.
\<close>

text \<open>Position \<open>i\<close> holds the first of the least elements.\<close>

definition first_min :: "('a \<Rightarrow> 'a \<Rightarrow> int) \<Rightarrow> 'a list \<Rightarrow> nat \<Rightarrow> bool" where
  "first_min cmp xs i \<longleftrightarrow> i < length xs \<and> (\<forall>x\<in>set xs. \<not> cmp x (xs ! i) < 0) \<and> (\<forall>j<i. cmp (xs ! i) (xs ! j) < 0)"

lemma first_min_snoc:
  assumes i: "first_min cmp xs i"
    and asym: "\<And>y z. y \<in> set (xs @ [x]) \<Longrightarrow> z \<in> set (xs @ [x]) \<Longrightarrow> cmp y z < (0::int) \<Longrightarrow> \<not> cmp z y < 0"
    and neg_trans: "\<And>y z u. y \<in> set (xs @ [x]) \<Longrightarrow> z \<in> set (xs @ [x]) \<Longrightarrow> u \<in> set (xs @ [x]) \<Longrightarrow>
      cmp y z < 0 \<Longrightarrow> cmp y u < 0 \<or> cmp u z < 0"
  shows "first_min cmp (xs @ [x]) (if cmp x (xs ! i) < 0 then length xs else i)"
proof (cases "cmp x (xs ! i) < 0")
  case False
  with i show ?thesis by (auto simp: first_min_def nth_append)
next
  case True
  from i have m: "xs ! i \<in> set xs" by (simp add: first_min_def)
  have less: "cmp x y < 0" if "y \<in> set xs" for y
    using neg_trans [of x "xs ! i" y] that m True i by (auto simp: first_min_def)
  then have "\<forall>j<length xs. cmp x (xs ! j) < 0" by simp
  moreover have "\<not> cmp y x < 0" if "y \<in> set (xs @ [x])" for y
    using less [of y] asym [of x y] asym [of x x] that by auto
  ultimately show ?thesis using True by (auto simp: first_min_def nth_append)
qed

lemma MinFunc_first:
  assumes "xs \<noteq> []"
    and asym: "\<And>x y. x \<in> set xs \<Longrightarrow> y \<in> set xs \<Longrightarrow> cmp x y < (0::int) \<Longrightarrow> \<not> cmp y x < 0"
    and neg_trans: "\<And>x y z. x \<in> set xs \<Longrightarrow> y \<in> set xs \<Longrightarrow> z \<in> set xs \<Longrightarrow>
      cmp x y < 0 \<Longrightarrow> cmp x z < 0 \<or> cmp z y < 0"
  shows "\<exists>i. MinFunc cmp xs = xs ! i \<and> first_min cmp xs i"
  using assms
proof (induction xs rule: rev_induct)
  case Nil
  then show ?case by simp
next
  case (snoc x xs)
  show ?case
  proof (cases "xs = []")
    case True
    with snoc.prems(2) [of x x] show ?thesis by (auto simp: MinFunc_def first_min_def)
  next
    case False
    have "\<exists>i. MinFunc cmp xs = xs ! i \<and> first_min cmp xs i"
    proof (rule snoc.IH [OF False])
      show "\<not> cmp z y < 0" if "y \<in> set xs" "z \<in> set xs" "cmp y z < 0" for y z
        using snoc.prems(2) that by simp
      show "cmp y u < 0 \<or> cmp u z < 0" if "y \<in> set xs" "z \<in> set xs" "u \<in> set xs" "cmp y z < 0" for y z u
        using snoc.prems(3) that by simp
    qed
    then obtain i where i: "MinFunc cmp xs = xs ! i" "first_min cmp xs i" by blast
    with False have "MinFunc cmp (xs @ [x]) = (xs @ [x]) ! (if cmp x (xs ! i) < 0 then length xs else i)"
      by (auto simp: MinFunc_def first_min_def nth_append)
    moreover have "first_min cmp (xs @ [x]) (if cmp x (xs ! i) < 0 then length xs else i)"
      using i(2) snoc.prems(2,3) by (rule first_min_snoc)
    ultimately show ?thesis by (intro exI conjI)
  qed
qed

definition conns :: "backend \<Rightarrow> nat" where
  "conns b = unat (ActiveConnectionsNo b)"

text \<open>No negative connection count: what the proxy keeps true.\<close>

definition conns_ok :: "world \<Rightarrow> bool" where
  "conns_ok w \<longleftrightarrow> (\<forall>p\<in>set (listed w). 0 \<le> sint (ActiveConnectionsNo (cells w p)))"

lemma scast_nonneg:
  fixes c :: i32
  assumes "0 \<le> sint c"
  shows "unat (scast c :: u64) = unat c" and "unat c < 2 ^ 31"
proof -
  have s: "sint c < 2 ^ 31" using sint_lt [of c] by simp
  have "uint c = take_bit 32 (sint c)" using uint_sint [of c] by simp
  also have "\<dots> = sint c" by (rule take_bit_int_eq_self) (use assms s in simp_all)
  finally have u: "uint c = sint c" .
  with s show "unat c < 2 ^ 31" by (simp add: unat_eq_nat_uint nat_less_iff)
  have "uint (word_of_int (sint c) :: u64) = sint c"
    by (rule word_of_int_inverse [OF refl assms]) (use s in simp)
  with u show "unat (scast c :: u64) = unat c" by (simp only: unat_eq_nat_uint scast_eq)
qed

lemma load_cmp_less:
  assumes "0 \<le> sint (ActiveConnectionsNo a)" and "0 \<le> sint (ActiveConnectionsNo b)"
    and "weight_ok a" and "weight_ok b"
  shows "load_cmp a b < 0 \<longleftrightarrow> conns a * unat (Weight b) < conns b * unat (Weight a)"
proof -
  have prod: "unat ((scast (ActiveConnectionsNo x) :: u64) * Weight y) = conns x * unat (Weight y)"
    if "0 \<le> sint (ActiveConnectionsNo x)" "weight_ok y" for x y
  proof -
    from scast_nonneg(2) [OF that(1)] that(2)
    have "conns x * unat (Weight y) \<le> 2 ^ 31 * 1000000"
      unfolding conns_def weight_ok_def by (intro mult_le_mono) auto
    then show ?thesis using scast_nonneg(1) [OF that(1)] by (simp add: conns_def unat_word_ariths)
  qed
  from assms show ?thesis
    by (simp add: load_cmp_def cmp_Compare_def Let_def word_less_nat_alt prod)
qed

lemma fold_select_member: "fold (\<lambda>x m. if P x m then x else m) ys m \<in> insert m (set ys)"
proof (induction ys arbitrary: m)
  case (Cons y ys)
  from Cons.IH [of "if P y m then y else m"] show ?case by auto
qed simp

lemma MinFunc_member: "xs \<noteq> [] \<Longrightarrow> MinFunc cmp xs \<in> set xs"
  using fold_select_member [of "\<lambda>x m. cmp x m < 0" "tl xs" "hd xs"]
  by (cases xs) (simp_all add: MinFunc_def)

text \<open>Comparing fractions with positive denominators is negatively transitive.\<close>

lemma ratio_neg_trans:
  fixes a b c :: nat
  assumes "a * wb < b * wa" and "0 < wc"
  shows "a * wc < c * wa \<or> c * wb < b * wc"
proof (rule ccontr)
  assume "\<not> ?thesis"
  then have le: "c * wa \<le> a * wc" "b * wc \<le> c * wb" by (simp_all add: not_less)
  have "(b * wa) * wc = (b * wc) * wa" by (simp add: ac_simps)
  also have "\<dots> \<le> (c * wb) * wa" using le(2) by (rule mult_le_mono1)
  also have "\<dots> = (c * wa) * wb" by (simp add: ac_simps)
  also have "\<dots> \<le> (a * wc) * wb" using le(1) by (rule mult_le_mono1)
  also have "\<dots> = (a * wb) * wc" by (simp add: ac_simps)
  finally show False using assms by simp
qed

lemma sum_list_zero_words: "(\<And>x. x \<in> set xs \<Longrightarrow> f x = 0) \<Longrightarrow> (\<Sum>x\<leftarrow>xs. f x :: 'a::len word) = 0"
  by (induction xs) auto

section \<open>The selectors keep the contract\<close>

definition draw_ok :: "(u64 \<Rightarrow> u64) \<Rightarrow> bool" where
  "draw_ok draw \<longleftrightarrow> (\<forall>n. n \<noteq> 0 \<longrightarrow> draw n < n)"

lemma Random_GetServer_some [sel_simps]:
  assumes "sel_ok w" and "ListHealthyBackends w \<noteq> []"
  shows "Random_GetServer draw w = Ret (Inr (walk_or_last (cells w) (ListHealthyBackends w)
    (draw (total_weight (cells w) (ListHealthyBackends w)))))"
  using sel_ok_total_pos [OF assms] assms(2) by (simp add: Random_GetServer_def Uint64N_def Let_def)

lemma Hash_GetServer_some [sel_simps]:
  assumes "sel_ok w" and "ListHealthyBackends w \<noteq> []"
  shows "Hash_GetServerForKey key w = Ret (Inr (walk_or_last (cells w) (ListHealthyBackends w)
    (ucast (fnv32a key) mod total_weight (cells w) (ListHealthyBackends w))))"
  using sel_ok_total_pos [OF assms] assms(2) by (simp add: Hash_GetServerForKey_def Let_def)

lemma LeastConnections_GetServer_some [sel_simps]:
  assumes "ListHealthyBackends w \<noteq> []"
  shows "LeastConnections_GetServer w = Ret (Inr (MinFunc
    (\<lambda>a b. load_cmp (cells w a) (cells w b)) (ListHealthyBackends w)))"
  using assms by (simp add: LeastConnections_GetServer_def)

lemma selectors_none [sel_simps]:
  assumes "ListHealthyBackends w = []"
  shows "Random_GetServer draw w = Ret (Inl ErrNoBackends)"
    and "Hash_GetServerForKey key w = Ret (Inl ErrNoBackends)"
    and "LeastConnections_GetServer w = Ret (Inl ErrNoBackends)"
  using assms
  by (simp_all add: Random_GetServer_def Hash_GetServerForKey_def LeastConnections_GetServer_def)

interpretation rnd: selector sel_ok "\<lambda>draw _. draw_ok draw" ListHealthyBackends Random_GetServer
  by unfold_locales (auto simp: sel_simps intro: walk_or_last_member)

interpretation hsh: selector sel_ok "\<lambda>_ _. True" ListHealthyBackends Hash_GetServerForKey
  by unfold_locales (auto simp: sel_simps intro: walk_or_last_member)

interpretation lcs: selector "\<lambda>_. True" "\<lambda>_ _. True" ListHealthyBackends
    "\<lambda>_ :: unit. LeastConnections_GetServer"
  by unfold_locales (auto simp: sel_simps intro: MinFunc_member)

section \<open>Counting draws\<close>

lemma card_word_range:
  assumes "hi \<le> 2 ^ 64"
  shows "card {k :: u64. lo \<le> unat k \<and> unat k < hi} = hi - lo"
proof -
  have "unat ` {k :: u64. lo \<le> unat k \<and> unat k < hi} = {lo..<hi}"
  proof (intro equalityI subsetI)
    fix n assume n: "n \<in> {lo..<hi}"
    with assms have "unat (word_of_nat n :: u64) = n" by (intro of_nat_inverse [OF refl]) auto
    with n show "n \<in> unat ` {k :: u64. lo \<le> unat k \<and> unat k < hi}"
      by (intro image_eqI [of _ _ "word_of_nat n"]) simp_all
  qed auto
  moreover have "inj_on unat {k :: u64. lo \<le> unat k \<and> unat k < hi}"
    by (intro inj_onI) (rule word_unat_eq_iff [THEN iffD2])
  ultimately show ?thesis using card_image by fastforce
qed

lemma band_le_total: "band h bs i \<le> sum_list (map (weight_of h) bs)"
  using band_mono [of i "max i (length bs)" h bs] by (simp add: band_def)

lemma draws_choosing:
  assumes "sel_ok w" and "i < length (ListHealthyBackends w)"
  shows "{k. k < total_weight (cells w) (ListHealthyBackends w) \<and>
      Random_GetServer (\<lambda>_. k) w = Ret (Inr (ListHealthyBackends w ! i))} =
    {k. band (cells w) (ListHealthyBackends w) i \<le> unat k \<and>
      unat k < band (cells w) (ListHealthyBackends w) (Suc i)}"
proof -
  let ?bs = "ListHealthyBackends w" and ?h = "cells w"
  from assms(2) have ne: "?bs \<noteq> []" by auto
  have d: "distinct ?bs" using assms(1) by (simp add: sel_ok_def healthy_distinct)
  have tot: "k < total_weight ?h ?bs \<longleftrightarrow> unat k < sum_list (map (weight_of ?h) ?bs)" for k
    using sel_ok_total(2) [OF assms(1)] by (simp add: word_less_nat_alt)
  have "k < total_weight ?h ?bs \<and> Random_GetServer (\<lambda>_. k) w = Ret (Inr (?bs ! i)) \<longleftrightarrow>
      band ?h ?bs i \<le> unat k \<and> unat k < band ?h ?bs (Suc i)" for k
  proof (cases "unat k < sum_list (map (weight_of ?h) ?bs)")
    case True
    with walk_or_last_iff [OF d assms(2) True] tot show ?thesis
      by (simp add: Random_GetServer_some [OF assms(1) ne])
  next
    case False
    with tot band_le_total [of ?h ?bs "Suc i"] show ?thesis by auto
  qed
  then show ?thesis by blast
qed

section \<open>What a hash selection depends on\<close>

text \<open>The identity a caller sees: the selected backend's identifier.\<close>

definition selected_id :: "world \<Rightarrow> (sel_error + ptr) go \<Rightarrow> (sel_error + string) go" where
  "selected_id w r = go_bind r (\<lambda>x. Ret (map_sum id (\<lambda>p. InstanceID (cells w p)) x))"

definition id_weights :: "world \<Rightarrow> (string \<times> u64) list" where
  "id_weights w = map (\<lambda>p. (InstanceID (cells w p), Weight (cells w p))) (ListHealthyBackends w)"

lemma weight_walk_cong:
  "map (\<lambda>p. (InstanceID (h p), Weight (h p))) bs = map (\<lambda>p. (InstanceID (h' p), Weight (h' p))) bs' \<Longrightarrow>
   map_option (\<lambda>p. InstanceID (h p)) (weight_walk h bs pick) =
   map_option (\<lambda>p. InstanceID (h' p)) (weight_walk h' bs' pick)"
proof (induction bs arbitrary: bs' pick)
  case Nil
  then show ?case by simp
next
  case (Cons b bs)
  then obtain b' cs where "bs' = b' # cs" by (cases bs') auto
  with Cons show ?case by simp
qed

lemma walk_or_last_cong:
  assumes eq: "map (\<lambda>p. (InstanceID (h p), Weight (h p))) bs =
      map (\<lambda>p. (InstanceID (h' p), Weight (h' p))) bs'" and "bs \<noteq> []"
  shows "InstanceID (h (walk_or_last h bs pick)) = InstanceID (h' (walk_or_last h' bs' pick))"
proof (cases "weight_walk h bs pick")
  case None
  with weight_walk_cong [OF eq, of pick] have "weight_walk h' bs' pick = None" by simp
  moreover from assms have "bs' \<noteq> []" by auto
  with assms have "(InstanceID (h (last bs)), Weight (h (last bs))) =
      (InstanceID (h' (last bs')), Weight (h' (last bs')))"
    by (metis (no_types, lifting) last_map)
  ultimately show ?thesis using None by (simp add: walk_or_last_def)
next
  case (Some p)
  with weight_walk_cong [OF eq, of pick] show ?thesis
    by (auto simp: walk_or_last_def split: option.splits)
qed

lemma total_weight_cong: "id_weights w = id_weights w' \<Longrightarrow>
   total_weight (cells w) (ListHealthyBackends w) = total_weight (cells w') (ListHealthyBackends w')"
proof -
  assume "id_weights w = id_weights w'"
  then have "map snd (id_weights w) = map snd (id_weights w')" by simp
  then show ?thesis by (simp add: total_weight_sum id_weights_def o_def)
qed

lemma Hash_depends_on_id_weights:
  assumes "id_weights w = id_weights w'"
  shows "selected_id w (Hash_GetServerForKey key w) = selected_id w' (Hash_GetServerForKey key w')"
proof (cases "ListHealthyBackends w = []")
  case True
  with assms have "ListHealthyBackends w' = []" by (simp add: id_weights_def)
  with True show ?thesis by (simp add: selectors_none selected_id_def)
next
  case False
  from assms have "length (ListHealthyBackends w) = length (ListHealthyBackends w')"
    unfolding id_weights_def by (rule map_eq_imp_length_eq)
  with False have "ListHealthyBackends w' \<noteq> []" by auto
  with False total_weight_cong [OF assms] walk_or_last_cong [OF assms [unfolded id_weights_def] False]
  show ?thesis by (simp add: Hash_GetServerForKey_def selected_id_def Let_def)
qed

lemma Hash_hits_band:
  assumes "distinct (ListHealthyBackends w)" and "i < length (ListHealthyBackends w)"
    and "sum_list (map (weight_of (cells w)) (ListHealthyBackends w)) < 2 ^ 64"
    and "Hash_GetServerForKey key w = Ret (Inr (ListHealthyBackends w ! i))"
  shows "band (cells w) (ListHealthyBackends w) i < 2 ^ 32"
proof -
  let ?bs = "ListHealthyBackends w" and ?h = "cells w"
  let ?pick = "ucast (fnv32a key) mod total_weight ?h ?bs"
  from assms(4) have t: "total_weight ?h ?bs \<noteq> 0" and p: "walk_or_last ?h ?bs ?pick = ?bs ! i"
    by (auto simp: Hash_GetServerForKey_def Let_def split: if_splits)
  have u: "unat ?pick = unat (fnv32a key) mod unat (total_weight ?h ?bs)"
    by (simp add: unat_mod unat_ucast_u64)
  from t have "unat (total_weight ?h ?bs) \<noteq> 0" by (simp add: unat_eq_0)
  with u unat_total_weight [OF assms(3)]
  have "unat ?pick < sum_list (map (weight_of ?h) ?bs)" by (metis mod_less_divisor neq0_conv)
  from walk_or_last_iff [OF assms(1,2) this] p have "band ?h ?bs i \<le> unat ?pick" by simp
  also have "\<dots> \<le> unat (fnv32a key)" unfolding u by (rule mod_less_eq_dividend)
  also have "\<dots> < 2 ^ 32" using unat_bound [of "fnv32a key"] by simp
  finally show ?thesis .
qed

section \<open>Example registries\<close>

definition healthy_backend :: "string \<Rightarrow> nat \<Rightarrow> i32 \<Rightarrow> backend" where
  "healthy_backend i wt c = \<lparr>InstanceID = i, URL = Some (mk_url ''http'' i []), healthy = True,
     ActiveConnectionsNo = c, Weight = word_of_nat wt\<rparr>"

lemma listed_boot: "listed (boot bs) = [1..<Suc (length bs)]"
  by (rule boot_facts)

lemma cells_boot: "map (cells (boot bs)) [1..<Suc (length bs)] = bs"
  using boot_facts(1,3) [of bs] by (simp add: abs_reg_def)

lemma cells_boot_nth: "i < length bs \<Longrightarrow> cells (boot bs) (Suc i) = bs ! i"
  using arg_cong [OF cells_boot [of bs], of "\<lambda>xs. xs ! i"] by (simp)

lemma healthy_boot_all:
  assumes "\<forall>b\<in>set bs. Healthy b"
  shows "ListHealthyBackends (boot bs) = [1..<Suc (length bs)]"
proof -
  have "Healthy (cells (boot bs) p)" if "p \<in> set [1..<Suc (length bs)]" for p
  proof -
    from that obtain j where "p = Suc j" "j < length bs" by (auto simp: Suc_le_eq gr0_conv_Suc)
    with assms cells_boot_nth [of j bs] show ?thesis by simp
  qed
  then show ?thesis by (simp add: reg_simps listed_boot filter_id_conv)
qed

lemma sel_ok_boot:
  "(\<forall>b\<in>set bs. weight_ok b) \<Longrightarrow> length bs \<le> 2 ^ 44 \<Longrightarrow> sel_ok (boot bs)"
  by (simp add: sel_ok_def weights_ok_def boot_facts)

definition pair_world :: world where
  "pair_world = boot [healthy_backend ''a'' 1 2, healthy_backend ''b'' 3 3]"

lemma pair_world_facts:
  "sel_ok pair_world" "ListHealthyBackends pair_world = [1, 2]" "listed pair_world = [1, 2]"
  "cells pair_world (Suc 0) = healthy_backend ''a'' 1 2" "cells pair_world 2 = healthy_backend ''b'' 3 3"
proof -
  have u: "[1..<Suc (length [a, b])] = [1, 2]" for a b :: backend by (simp add: upt_rec)
  show "sel_ok pair_world" unfolding pair_world_def
    by (rule sel_ok_boot) (simp_all add: weight_ok_def healthy_backend_def)
  show "ListHealthyBackends pair_world = [1, 2]" unfolding pair_world_def
    by (subst healthy_boot_all, simp add: Healthy_def healthy_backend_def, rule u)
  show "listed pair_world = [1, 2]" unfolding pair_world_def by (subst listed_boot) (rule u)
  show "cells pair_world (Suc 0) = healthy_backend ''a'' 1 2"
    using cells_boot_nth [of 0 "[healthy_backend ''a'' 1 2, healthy_backend ''b'' 3 3]"]
    by (simp add: pair_world_def)
  show "cells pair_world 2 = healthy_backend ''b'' 3 3"
    using cells_boot_nth [of 1 "[healthy_backend ''a'' 1 2, healthy_backend ''b'' 3 3]"]
    by (simp add: pair_world_def numeral_2_eq_2)
qed

section \<open>Properties\<close>

text \<open>
  C19. Weighted random selection is exact: of the draws below the total weight of the healthy
  backends (each as likely as any other for a uniform generator), exactly as many select a
  healthy backend as its weight says, and the total is the sum of the weights.
\<close>

theorem random_selection_weighted:
  assumes "sel_ok w" and "p \<in> set (ListHealthyBackends w)"
  shows "card {k. k < total_weight (cells w) (ListHealthyBackends w) \<and>
      Random_GetServer (\<lambda>_. k) w = Ret (Inr p)} = unat (Weight (cells w p)) \<and>
    unat (total_weight (cells w) (ListHealthyBackends w)) =
      (\<Sum>q\<leftarrow>ListHealthyBackends w. unat (Weight (cells w q)))"
proof -
  let ?bs = "ListHealthyBackends w" and ?h = "cells w"
  from assms(2) obtain i where i: "i < length ?bs" "?bs ! i = p" by (auto simp: in_set_conv_nth)
  have "band ?h ?bs (Suc i) \<le> 2 ^ 64"
    using band_le_total [of ?h ?bs "Suc i"] sel_ok_total(1) [OF assms(1)] by linarith
  from card_word_range [OF this, of "band ?h ?bs i"] draws_choosing [OF assms(1) i(1)] i band_Suc [OF i(1)]
  have "card {k. k < total_weight ?h ?bs \<and> Random_GetServer (\<lambda>_. k) w = Ret (Inr p)} =
      weight_of ?h p" by simp
  with sel_ok_total(2) [OF assms(1)] show ?thesis by (simp add: weight_of_def [abs_def])
qed

theorem random_selection_weighted_witness:
  "card {k. k < total_weight (cells pair_world) (ListHealthyBackends pair_world) \<and>
     Random_GetServer (\<lambda>_. k) pair_world = Ret (Inr 2)} = 3"
  using random_selection_weighted [OF pair_world_facts(1), of 2]
  by (simp add: pair_world_facts healthy_backend_def)

text \<open>
  Hash selection is weighted-random selection with the draw replaced by the key's FNV-1a
  hash reduced modulo the total weight, and neither panics: the two walks never differ.
\<close>

theorem hash_is_random_with_hashed_draw:
  assumes "sel_ok w"
  shows "Hash_GetServerForKey key w = Random_GetServer (\<lambda>n. ucast (fnv32a key) mod n) w \<and>
    (\<exists>r. Hash_GetServerForKey key w = Ret r)"
  by (cases "ListHealthyBackends w = []")
    (simp_all add: selectors_none Hash_GetServer_some [OF assms] Random_GetServer_some [OF assms])

theorem hash_is_random_with_hashed_draw_witness:
  "Hash_GetServerForKey ''203.0.113.7'' pair_world =
     Random_GetServer (\<lambda>n. ucast (fnv32a ''203.0.113.7'') mod n) pair_world"
  using hash_is_random_with_hashed_draw [OF pair_world_facts(1)] by simp

text \<open>
  C34. Hash selection is sticky: the backend selected for a key depends on nothing but the
  identifiers and weights of the healthy backends in registration order.  Two registry states
  that agree on these (whatever their unhealthy backends, connection counts, URLs or memory
  layout) select the same backend, or fail the same way.
\<close>

theorem hash_selection_sticky:
  assumes "id_weights w = id_weights w'"
  shows "selected_id w (Hash_GetServerForKey key w) = selected_id w' (Hash_GetServerForKey key w')"
  by (rule Hash_depends_on_id_weights [OF assms])

definition pair_world_down :: world where
  "pair_world_down = boot [NewBackend ''z'' None 7, healthy_backend ''a'' 1 9, healthy_backend ''b'' 3 0]"

theorem hash_selection_sticky_witness:
  "selected_id pair_world (Hash_GetServerForKey ''10.0.0.1'' pair_world) =
   selected_id pair_world_down (Hash_GetServerForKey ''10.0.0.1'' pair_world_down)"
proof -
  let ?bs = "[NewBackend ''z'' None 7, healthy_backend ''a'' 1 9, healthy_backend ''b'' 3 0]"
  have "[1..<Suc (length ?bs)] = [1, 2, 3]" by (simp add: upt_rec)
  then have "id_weights pair_world_down = [(''a'', 1), (''b'', 3)]"
    using cells_boot_nth [of 0 ?bs] cells_boot_nth [of 1 ?bs] cells_boot_nth [of 2 ?bs]
    by (simp add: id_weights_def reg_simps listed_boot pair_world_down_def healthy_backend_def
        Healthy_def numeral_2_eq_2 numeral_3_eq_3)
  moreover have "id_weights pair_world = [(''a'', 1), (''b'', 3)]"
    by (simp add: id_weights_def pair_world_facts healthy_backend_def)
  ultimately show ?thesis by (intro hash_selection_sticky) simp
qed

text \<open>
  The weights are honoured by hash selection only up to the 32-bit range of the hash: a
  healthy backend whose weight band starts at or above 2^32 (the weights of the backends before
  it add up to that much) is selected for no key at all.
\<close>

theorem hash_never_reaches_far_bands:
  assumes "sel_ok w" and "i < length (ListHealthyBackends w)"
    and "2 ^ 32 \<le> (\<Sum>q\<leftarrow>take i (ListHealthyBackends w). unat (Weight (cells w q)))"
  shows "Hash_GetServerForKey key w \<noteq> Ret (Inr (ListHealthyBackends w ! i))"
proof
  assume "Hash_GetServerForKey key w = Ret (Inr (ListHealthyBackends w ! i))"
  with Hash_hits_band [OF _ assms(2) sel_ok_total(1) [OF assms(1)]] assms(1)
  have "band (cells w) (ListHealthyBackends w) i < 2 ^ 32"
    by (simp add: sel_ok_def healthy_distinct)
  with assms(3) show False by (simp add: band_def weight_of_def [abs_def])
qed

theorem hash_never_reaches_far_bands_witness:
  "Hash_GetServerForKey ''any'' (boot (replicate 4296 (healthy_backend ''a'' 1000000 0))) \<noteq>
     Ret (Inr 4296)"
proof -
  let ?bs = "replicate 4296 (healthy_backend ''a'' 1000000 0)" and ?w = "boot (replicate 4296 (healthy_backend ''a'' 1000000 0))"
  have ok: "sel_ok ?w" by (rule sel_ok_boot) (simp_all add: weight_ok_def healthy_backend_def)
  have h: "ListHealthyBackends ?w = [1..<4297]"
    by (subst healthy_boot_all) (auto simp: Healthy_def healthy_backend_def)
  have "map (\<lambda>q. unat (Weight (cells ?w q))) (take 4295 [1..<4297]) =
      replicate 4295 1000000"
  proof (rule nth_equalityI)
    fix j assume j: "j < length (map (\<lambda>q. unat (Weight (cells ?w q))) (take 4295 [1..<4297]))"
    then have "cells ?w (Suc j) = ?bs ! j" by (intro cells_boot_nth) simp
    with j show "map (\<lambda>q. unat (Weight (cells ?w q))) (take 4295 [1..<4297]) ! j =
        replicate 4295 1000000 ! j"
      by (simp add: healthy_backend_def)
  qed simp
  then have "(\<Sum>q\<leftarrow>take 4295 (ListHealthyBackends ?w). unat (Weight (cells ?w q))) = 4295000000"
    unfolding h by (simp only: sum_list_replicate) simp
  moreover have "ListHealthyBackends ?w ! 4295 = 4296" unfolding h by (subst nth_upt) simp_all
  ultimately show ?thesis
    using hash_never_reaches_far_bands [OF ok, of 4295 "''any''"] h by simp
qed

text \<open>
  Both weighted selectors panic when there are healthy backends but every weight is zero:
  the random one inside \<open>rand.Uint64N\<close>, the hash one by an integer division by zero.  (The
  configuration loader and the registration handler keep weights positive.)
\<close>

theorem zero_weights_panic:
  assumes "ListHealthyBackends w \<noteq> []" and "\<forall>p\<in>set (ListHealthyBackends w). Weight (cells w p) = 0"
  shows "Random_GetServer draw w = Panic (InvalidArgument ''invalid argument to Uint64N'') \<and>
    Hash_GetServerForKey key w = Panic IntegerDivideByZero"
proof -
  from assms(2) have "total_weight (cells w) (ListHealthyBackends w) = 0"
    unfolding total_weight_sum by (intro sum_list_zero_words) simp
  with assms(1) show ?thesis
    by (simp add: Random_GetServer_def Hash_GetServerForKey_def Uint64N_def Let_def)
qed

theorem zero_weights_panic_witness:
  "Hash_GetServerForKey ''k'' (boot [healthy_backend ''a'' 0 0]) = Panic IntegerDivideByZero"
proof -
  have "ListHealthyBackends (boot [healthy_backend ''a'' 0 0]) = [1]"
    by (subst healthy_boot_all) (simp_all add: Healthy_def healthy_backend_def upt_rec)
  moreover have "Weight (cells (boot [healthy_backend ''a'' 0 0]) 1) = 0"
    using cells_boot_nth [of 0 "[healthy_backend ''a'' 0 0]"] by (simp add: healthy_backend_def)
  ultimately show ?thesis
    using zero_weights_panic [of "boot [healthy_backend ''a'' 0 0]" "\<lambda>n. 0" "''k''"] by simp
qed

text \<open>
  C35. Least-connections selection returns a healthy backend whose load (connections per unit of
  weight) no healthy backend undercuts, and the first such in registration order: the 64-bit
  cross-multiplication of the comparison neither wraps nor changes sign.
\<close>

theorem least_connections_minimal:
  assumes "weights_ok w" and "conns_ok w" and "ListHealthyBackends w \<noteq> []"
  shows "\<exists>i<length (ListHealthyBackends w).
    LeastConnections_GetServer w = Ret (Inr (ListHealthyBackends w ! i)) \<and>
    (let p = ListHealthyBackends w ! i in
      (\<forall>q\<in>set (ListHealthyBackends w).
         conns (cells w p) * unat (Weight (cells w q)) \<le> conns (cells w q) * unat (Weight (cells w p))) \<and>
      (\<forall>j<i. let q = ListHealthyBackends w ! j in
         conns (cells w p) * unat (Weight (cells w q)) < conns (cells w q) * unat (Weight (cells w p))))"
proof -
  let ?bs = "ListHealthyBackends w" and ?cmp = "\<lambda>a b. load_cmp (cells w a) (cells w b)"
  have ok: "weight_ok (cells w p)" "0 \<le> sint (ActiveConnectionsNo (cells w p))" if "p \<in> set ?bs" for p
    using that assms(1,2) healthy_subset [of w] by (auto simp: weights_ok_def conns_ok_def abs_reg_def)
  have less: "?cmp p q < 0 \<longleftrightarrow>
      conns (cells w p) * unat (Weight (cells w q)) < conns (cells w q) * unat (Weight (cells w p))"
    if "p \<in> set ?bs" "q \<in> set ?bs" for p q
    using ok that by (intro load_cmp_less) auto
  have "\<exists>i. MinFunc ?cmp ?bs = ?bs ! i \<and> first_min ?cmp ?bs i"
  proof (rule MinFunc_first [OF assms(3)])
    show "\<not> ?cmp q p < 0" if "p \<in> set ?bs" "q \<in> set ?bs" "?cmp p q < 0" for p q
      using that less by auto
    show "?cmp p r < 0 \<or> ?cmp r q < 0"
      if "p \<in> set ?bs" "q \<in> set ?bs" "r \<in> set ?bs" "?cmp p q < 0" for p q r
    proof -
      from ok(1) [OF that(3)] have "0 < unat (Weight (cells w r))" by (auto simp: weight_ok_def)
      with that less ratio_neg_trans show ?thesis by auto
    qed
  qed
  then obtain i where "i < length ?bs" "MinFunc ?cmp ?bs = ?bs ! i"
    "\<forall>x\<in>set ?bs. \<not> ?cmp x (?bs ! i) < 0" "\<forall>j<i. ?cmp (?bs ! i) (?bs ! j) < 0"
    unfolding first_min_def by blast
  with less assms(3) show ?thesis
    by (intro exI [of _ i]) (auto simp: Let_def LeastConnections_GetServer_some not_less)
qed

theorem least_connections_minimal_witness:
  "LeastConnections_GetServer pair_world = Ret (Inr 2)"
proof -
  let ?L = "ListHealthyBackends pair_world"
  have "weights_ok pair_world" using pair_world_facts(1) by (simp add: sel_ok_def)
  moreover have "conns_ok pair_world"
    by (simp add: conns_ok_def pair_world_facts healthy_backend_def)
  moreover have "?L \<noteq> []" by (simp add: pair_world_facts)
  ultimately obtain i where i: "i < length ?L" "LeastConnections_GetServer pair_world = Ret (Inr (?L ! i))"
    and m: "\<forall>q\<in>set ?L. conns (cells pair_world (?L ! i)) * unat (Weight (cells pair_world q)) \<le>
      conns (cells pair_world q) * unat (Weight (cells pair_world (?L ! i)))"
    using least_connections_minimal unfolding Let_def by blast
  from m have "i \<noteq> 0" by (intro notI) (simp add: pair_world_facts healthy_backend_def conns_def)
  with i(1) have "i = 1" by (simp add: pair_world_facts)
  with i show ?thesis by (simp add: pair_world_facts)
qed

end
