(* ===== verification/RoundRobin.thy ===== *)
theory RoundRobin
  imports Selectors
begin

text \<open>
  The round-robin selector of \<open>internal/balancer\<close> (round_robin.go).  Its state is one 32-bit
  counter that every call increments atomically; the call then scans the registered backends
  from that position for a healthy one.  The positions are computed in 32-bit arithmetic, where
  the counter wraps: the theorems say what the selector does away from the wrap and what it
  fails to do at the wrap.
\<close>

section \<open>The selector\<close>

definition rr_index :: "u32 \<Rightarrow> u32 \<Rightarrow> u32 \<Rightarrow> nat" where
  "rr_index start n i = unat ((start + i) mod n)"

text \<open>\<open>for i := range n\<close> with the first healthy backend returned.\<close>

definition rr_scan :: "(ptr \<Rightarrow> backend) \<Rightarrow> ptr list \<Rightarrow> u32 \<Rightarrow> u32 \<Rightarrow> sel_error + ptr" where
  "rr_scan h bs start n =
     (case find (\<lambda>i. Healthy (h (bs ! rr_index start n i))) (map word_of_nat [0..<unat n]) of
        Some i \<Rightarrow> Inr (bs ! rr_index start n i)
      | None \<Rightarrow> Inl ErrNoBackends)"

definition RoundRobin_GetServer :: "u32 \<Rightarrow> world \<Rightarrow> u32 \<times> (sel_error + ptr)" where
  "RoundRobin_GetServer current w =
     (let backends = listed w; n = word_of_nat (length backends)
      in if n = 0 then (current, Inl ErrNoBackends)
         else let current' = current + 1; start = current' - 1
              in (current', rr_scan (cells w) backends start n))"

text \<open>Consecutive calls; concurrent callers draw the same counter values in some order.\<close>

fun rr_run :: "nat \<Rightarrow> u32 \<Rightarrow> world \<Rightarrow> (sel_error + ptr) list" where
  "rr_run 0 current w = []"
| "rr_run (Suc k) current w =
     (let (current', r) = RoundRobin_GetServer current w in r # rr_run k current' w)"

section \<open>The scan in natural numbers\<close>

text \<open>A pool whose size fits the 32-bit length, as every real one does.\<close>

definition rr_ok :: "world \<Rightarrow> bool" where
  "rr_ok w \<longleftrightarrow> mem_ok w \<and> length (listed w) < 2 ^ 32"

definition no_wrap :: "u32 \<Rightarrow> world \<Rightarrow> bool" where
  "no_wrap current w \<longleftrightarrow> unat current + length (listed w) \<le> 2 ^ 32"

definition up_at :: "world \<Rightarrow> nat \<Rightarrow> bool" where
  "up_at w k \<longleftrightarrow> Healthy (cells w (listed w ! (k mod length (listed w))))"

lemma rr_index_lt: "n \<noteq> 0 \<Longrightarrow> rr_index start n i < unat n"
  by (metis rr_index_def unat_mod unat_gt_0 mod_less_divisor)

lemma rr_index_no_wrap:
  assumes "unat start + k < 2 ^ 32" and "n \<noteq> 0"
  shows "rr_index start n (word_of_nat k) = (unat start + k) mod unat n"
proof -
  from assms(1) have "unat (word_of_nat k :: u32) = k" by (intro of_nat_inverse [OF refl]) simp
  with assms(1) have "unat (start + word_of_nat k) = unat start + k"
    by (simp add: unat_word_ariths)
  then show ?thesis by (simp add: rr_index_def unat_mod)
qed

lemma find_map_word: "find P (map f xs) = map_option f (find (P \<circ> f) xs)"
  by (induction xs) auto

lemma find_cong_set: "(\<And>x. x \<in> set xs \<Longrightarrow> P x = Q x) \<Longrightarrow> find P xs = find Q xs"
  by (induction xs) auto

lemma find_upt_Some:
  "find P [0..<n] = Some i \<longleftrightarrow> i < n \<and> P i \<and> (\<forall>j<i. \<not> P j)"
  by (auto simp: find_Some_iff)

text \<open>Away from the wrap the scan visits start, start + 1, \<dots> modulo the number of backends.\<close>

lemma rr_scan_no_wrap:
  assumes "rr_ok w" and "no_wrap current w" and "listed w \<noteq> []"
  shows "rr_scan (cells w) (listed w) current (word_of_nat (length (listed w))) =
    (case find (\<lambda>i. up_at w (unat current + i)) [0..<length (listed w)] of
       Some i \<Rightarrow> Inr (listed w ! ((unat current + i) mod length (listed w)))
     | None \<Rightarrow> Inl ErrNoBackends)"
proof -
  let ?n = "length (listed w)" and ?N = "word_of_nat (length (listed w)) :: u32"
  from assms(1) have u: "unat ?N = ?n" by (intro of_nat_inverse [OF refl]) (simp add: rr_ok_def)
  with assms(3) have nz: "?N \<noteq> 0" by (metis length_0_conv unat_0)
  have idx: "rr_index current ?N (word_of_nat k) = (unat current + k) mod ?n" if "k < ?n" for k
    using rr_index_no_wrap [OF _ nz, of current k] that assms(2) u by (simp add: no_wrap_def)
  have "find ((\<lambda>i. Healthy (cells w (listed w ! rr_index current ?N i))) \<circ> word_of_nat) [0..<?n] =
      find (\<lambda>i. up_at w (unat current + i)) [0..<?n]"
    by (intro find_cong_set) (simp add: idx up_at_def)
  then have f: "find (\<lambda>i. Healthy (cells w (listed w ! rr_index current ?N i)))
      (map word_of_nat [0..<?n]) =
      map_option word_of_nat (find (\<lambda>i. up_at w (unat current + i)) [0..<?n])"
    by (simp add: find_map_word)
  show ?thesis
  proof (cases "find (\<lambda>i. up_at w (unat current + i)) [0..<?n]")
    case None
    with f show ?thesis by (simp add: rr_scan_def u)
  next
    case (Some i)
    then have "i < ?n" by (simp add: find_upt_Some)
    with f Some idx show ?thesis by (simp add: rr_scan_def u)
  qed
qed

lemma RoundRobin_nonempty:
  assumes "rr_ok w" and "listed w \<noteq> []"
  shows "RoundRobin_GetServer current w =
    (current + 1, rr_scan (cells w) (listed w) current (word_of_nat (length (listed w))))"
proof -
  from assms(1) have "unat (word_of_nat (length (listed w)) :: u32) = length (listed w)"
    by (intro of_nat_inverse [OF refl]) (simp add: rr_ok_def)
  with assms(2) have "(word_of_nat (length (listed w)) :: u32) \<noteq> 0" by (metis length_0_conv unat_0)
  then show ?thesis by (simp add: RoundRobin_GetServer_def Let_def)
qed

lemma RoundRobin_empty: "listed w = [] \<Longrightarrow> RoundRobin_GetServer current w = (current, Inl ErrNoBackends)"
  by (simp add: RoundRobin_GetServer_def)

lemma find_None_word: "find P xs = None \<longleftrightarrow> (\<forall>x\<in>set xs. \<not> P x)"
  by (auto simp: find_None_iff)

text \<open>Whatever the counter, a returned backend is registered and healthy.\<close>

lemma RoundRobin_sound:
  assumes "snd (RoundRobin_GetServer current w) = Inr p"
  shows "p \<in> set (ListHealthyBackends w)"
proof -
  let ?N = "word_of_nat (length (listed w)) :: u32"
  from assms have nz: "?N \<noteq> 0" by (auto simp: RoundRobin_GetServer_def Let_def split: if_splits)
  with assms obtain i where i: "find (\<lambda>i. Healthy (cells w (listed w ! rr_index current ?N i)))
      (map word_of_nat [0..<unat ?N]) = Some i" and p: "p = listed w ! rr_index current ?N i"
    by (auto simp: RoundRobin_GetServer_def Let_def rr_scan_def split: option.splits)
  from find_SomeD [OF i] p have "Healthy (cells w p)" by simp
  moreover have "rr_index current ?N i < length (listed w)"
    using rr_index_lt [OF nz, of current i] by (simp add: unat_of_nat order_less_le_trans)
  ultimately show ?thesis using p by (simp add: reg_simps)
qed

lemma mod_shift_surj:
  assumes "k < (n::nat)"
  shows "\<exists>i<n. (s + i) mod n = k"
proof (intro exI conjI)
  show "(k + n - s mod n) mod n < n" using assms by simp
  have "s mod n < n" using assms by simp
  then have "s mod n + (k + n - s mod n) = k + n" by simp
  then have "(s mod n + (k + n - s mod n)) mod n = k" using assms by simp
  then show "(s + (k + n - s mod n) mod n) mod n = k" by (metis mod_add_left_eq mod_add_right_eq)
qed

lemma RoundRobin_complete:
  assumes "rr_ok w" and "no_wrap current w" and "ListHealthyBackends w \<noteq> []"
  shows "\<exists>p. snd (RoundRobin_GetServer current w) = Inr p"
proof -
  from assms(3) obtain k where k: "k < length (listed w)" "Healthy (cells w (listed w ! k))"
    by (auto simp: reg_simps filter_empty_conv in_set_conv_nth)
  then have ne: "listed w \<noteq> []" by auto
  obtain i where "i < length (listed w)" "(unat current + i) mod length (listed w) = k"
    using mod_shift_surj [OF k(1)] by blast
  with k have "find (\<lambda>i. up_at w (unat current + i)) [0..<length (listed w)] \<noteq> None"
    by (auto simp: find_None_word up_at_def)
  then show ?thesis
    by (auto simp: RoundRobin_nonempty [OF assms(1) ne] rr_scan_no_wrap [OF assms(1,2) ne])
qed

interpretation rrs: selector rr_ok no_wrap ListHealthyBackends
    "\<lambda>current w. Ret (snd (RoundRobin_GetServer current w))"
proof unfold_locales
  fix w :: world and e :: u32
  show "Ret (snd (RoundRobin_GetServer e w)) = Ret (Inl ErrNoBackends)"
    if "rr_ok w" "ListHealthyBackends w = []"
  proof (cases "snd (RoundRobin_GetServer e w)")
    case (Inl err)
    then show ?thesis by (cases err) simp
  next
    case (Inr p)
    with RoundRobin_sound [OF Inr] that(2) show ?thesis by simp
  qed
  show "\<exists>p\<in>set (ListHealthyBackends w). Ret (snd (RoundRobin_GetServer e w)) = Ret (Inr p)"
    if "rr_ok w" "no_wrap e w" "ListHealthyBackends w \<noteq> []"
    using RoundRobin_complete [OF that] RoundRobin_sound by auto
qed

section \<open>Counting over full cycles\<close>

lemma window_bij: "0 < n \<Longrightarrow> bij_betw (\<lambda>t. t mod n) {a..<a + n} {..<(n::nat)}"
proof (intro bij_betw_imageI inj_onI equalityI subsetI)
  fix t t' assume n: "0 < n" and r: "t \<in> {a..<a + n}" "t' \<in> {a..<a + n}" and eq: "t mod n = t' mod n"
  have "n dvd max t t' - min t t'"
    using eq by (metis dvd_0_right diff_self_eq_0 max_def min_def mod_eq_dvd_iff_nat nle_le)
  moreover have "max t t' - min t t' < n" using r by auto
  ultimately have "max t t' - min t t' = 0" by (metis dvd_imp_le le_zero_eq linorder_not_less)
  then show "t = t'" by (auto simp: max_def min_def split: if_splits)
next
  fix k assume "k \<in> {..<n}"
  then obtain i where "i < n" "(a + i) mod n = k" using mod_shift_surj [of k n a] by auto
  then show "k \<in> (\<lambda>t. t mod n) ` {a..<a + n}" by (intro image_eqI [of _ _ "a + i"]) auto
qed auto

lemma periodic_sum:
  assumes "0 < n" and "\<And>t. f t = f (t mod n)"
  shows "(\<Sum>t = a..<a + m * n. f t) = m * (\<Sum>k<n. f k :: nat)"
proof (induction m)
  case (Suc m)
  have "(\<Sum>t = a + m * n..<a + m * n + n. f t) = (\<Sum>t = a + m * n..<a + m * n + n. f (t mod n))"
    using assms(2) by (intro sum.cong) auto
  also have "\<dots> = (\<Sum>k<n. f k)"
    using sum.reindex_bij_betw [OF window_bij [OF assms(1), of "a + m * n"], of f] by simp
  finally have "(\<Sum>t = a + m * n..<a + m * n + n. f t) = (\<Sum>k<n. f k)" .
  moreover have "(\<Sum>t = a..<a + Suc m * n. f t) =
      (\<Sum>t = a..<a + m * n. f t) + (\<Sum>t = a + m * n..<a + m * n + n. f t)"
    using sum.atLeastLessThan_concat [of a "a + m * n" "a + m * n + n" f] by (simp add: ac_simps)
  ultimately show ?case using Suc by simp
qed simp

lemma count_list_map_upt: "count_list (map f [a..<b]) y = (\<Sum>t = a..<b. if f t = y then 1 else 0)"
proof (induction b)
  case (Suc b)
  then show ?case by (cases "a \<le> b") (simp_all add: upt_Suc atLeastLessThanSuc)
qed simp

section \<open>What a run of calls selects\<close>

text \<open>The position selected from the starting position \<open>s\<close>.\<close>

definition rr_pick :: "world \<Rightarrow> nat \<Rightarrow> nat option" where
  "rr_pick w s = map_option (\<lambda>i. (s + i) mod length (listed w))
     (find (\<lambda>i. up_at w (s + i)) [0..<length (listed w)])"

lemma rr_pick_mod: "rr_pick w (s mod length (listed w)) = rr_pick w s"
  by (simp add: rr_pick_def up_at_def mod_add_left_eq)

lemma RoundRobin_pick:
  assumes "rr_ok w" and "no_wrap current w" and "listed w \<noteq> []"
  shows "RoundRobin_GetServer current w = (current + 1,
    case rr_pick w (unat current) of Some k \<Rightarrow> Inr (listed w ! k) | None \<Rightarrow> Inl ErrNoBackends)"
  using rr_scan_no_wrap [OF assms]
  by (auto simp: RoundRobin_nonempty [OF assms(1,3)] rr_pick_def split: option.splits)

lemma rr_run_picks:
  assumes "rr_ok w" and "listed w \<noteq> []" and "unat current + k + length (listed w) \<le> 2 ^ 32"
  shows "rr_run k current w = map (\<lambda>t. case rr_pick w t of Some j \<Rightarrow> Inr (listed w ! j)
    | None \<Rightarrow> Inl ErrNoBackends) [unat current..<unat current + k]"
  using assms(3)
proof (induction k arbitrary: current)
  case 0
  then show ?case by simp
next
  case (Suc k)
  from assms(2) have n: "0 < length (listed w)" by simp
  from Suc.prems n have "unat current + 1 < 2 ^ 32" by linarith
  then have u: "unat (current + 1) = unat current + 1" by (simp add: unat_word_ariths)
  from Suc.prems have "no_wrap current w" by (simp add: no_wrap_def)
  from RoundRobin_pick [OF assms(1) this assms(2)] Suc.IH [of "current + 1"] Suc.prems u show ?case
    by (simp add: upt_conv_Cons)
qed

lemma rr_count:
  assumes "rr_ok w" and "j < length (listed w)"
    and "unat current + m * length (listed w) + length (listed w) \<le> 2 ^ 32"
  shows "count_list (rr_run (m * length (listed w)) current w) (Inr (listed w ! j)) =
    m * card {s. s < length (listed w) \<and> rr_pick w s = Some j}"
proof -
  let ?n = "length (listed w)"
  from assms(2) have ne: "listed w \<noteq> []" and n: "0 < ?n" by auto
  have d: "distinct (listed w)" using assms(1) by (simp add: rr_ok_def mem_ok_def)
  have "(case rr_pick w t of Some j \<Rightarrow> Inr (listed w ! j) | None \<Rightarrow> Inl ErrNoBackends) =
      Inr (listed w ! j) \<longleftrightarrow> rr_pick w t = Some j" for t
  proof (cases "rr_pick w t")
    case (Some i)
    with n have "i < ?n" by (auto simp: rr_pick_def)
    with Some d assms(2) show ?thesis by (simp add: nth_eq_iff_index_eq)
  qed simp
  then have "count_list (rr_run (m * ?n) current w) (Inr (listed w ! j)) =
      (\<Sum>t = unat current..<unat current + m * ?n. if rr_pick w t = Some j then 1 else 0)"
    using assms(3) by (simp add: rr_run_picks [OF assms(1) ne] count_list_map_upt)
  also have "\<dots> = m * (\<Sum>k<?n. if rr_pick w k = Some j then 1 else 0)"
    by (rule periodic_sum [OF n]) (simp add: rr_pick_mod)
  also have "(\<Sum>k<?n. if rr_pick w k = Some j then 1 else 0) = card {s. s < ?n \<and> rr_pick w s = Some j}"
    by (simp add: sum.If_cases Int_def)
  finally show ?thesis .
qed

text \<open>
  The starts that end at the healthy position \<open>j\<close> are \<open>j\<close> itself and the unhealthy positions
  directly before it, cyclically.
\<close>

definition down_run :: "world \<Rightarrow> nat \<Rightarrow> nat \<Rightarrow> bool" where
  "down_run w j d \<longleftrightarrow> d < length (listed w) \<and>
     (\<forall>i\<in>{1..d}. \<not> up_at w (j + length (listed w) - i)) \<and>
     (d + 1 < length (listed w) \<longrightarrow> up_at w (j + length (listed w) - (d + 1)))"

lemma back_forth:
  assumes "i \<le> n" and "k \<le> i" and "j < (n::nat)"
  shows "((j + n - i) mod n + k) mod n = (j + n - (i - k)) mod n"
proof -
  have "((j + n - i) mod n + k) mod n = (j + n - i + k) mod n" by (simp add: mod_add_left_eq)
  moreover from assms have "j + n - i + k = j + n - (i - k)" by simp
  ultimately show ?thesis by simp
qed

lemma up_at_mod: "up_at w (k mod length (listed w)) = up_at w k"
  by (simp add: up_at_def)

lemma starts_of:
  assumes j: "j < length (listed w)" and up: "up_at w j" and run: "down_run w j d"
  shows "{s. s < length (listed w) \<and> rr_pick w s = Some j} =
    (\<lambda>i. (j + length (listed w) - i) mod length (listed w)) ` {0..d}"
proof (intro equalityI subsetI)
  let ?n = "length (listed w)"
  fix s assume "s \<in> {s. s < ?n \<and> rr_pick w s = Some j}"
  then obtain i where s: "s < ?n" and i: "i < ?n" "\<forall>k<i. \<not> up_at w (s + k)" "(s + i) mod ?n = j"
    by (auto simp: rr_pick_def find_upt_Some)
  have "(j + ?n - i) mod ?n = (s + i + (?n - i)) mod ?n"
    using i(1,3) by (metis Nat.add_diff_assoc less_imp_le_nat mod_add_left_eq)
  with i(1) s have si: "(j + ?n - i) mod ?n = s" by simp
  have "i \<le> d"
  proof (rule ccontr)
    assume "\<not> i \<le> d"
    then have d: "d < i" by simp
    with run i(1) have "up_at w (j + ?n - (d + 1))" by (simp add: down_run_def)
    moreover have "((j + ?n - i) mod ?n + (i - (d + 1))) mod ?n = (j + ?n - (d + 1)) mod ?n"
      using back_forth [of i ?n "i - (d + 1)" j] i(1) j d by simp
    ultimately have "up_at w (s + (i - (d + 1)))" using si by (metis up_at_mod)
    moreover from d have "i - (d + 1) < i" by simp
    ultimately show False using i(2) by blast
  qed
  with si show "s \<in> (\<lambda>i. (j + ?n - i) mod ?n) ` {0..d}" by auto
next
  let ?n = "length (listed w)"
  fix s assume "s \<in> (\<lambda>i. (j + ?n - i) mod ?n) ` {0..d}"
  then obtain i where i: "i \<le> d" and s: "s = (j + ?n - i) mod ?n" by auto
  from i run have in_n: "i < ?n" by (simp add: down_run_def)
  have at: "(s + k) mod ?n = (j + ?n - (i - k)) mod ?n" if "k \<le> i" for k
    using back_forth [of i ?n k j] in_n that j s by simp
  have "\<not> up_at w (s + k)" if "k < i" for k
  proof -
    from that i have "i - k \<in> {1..d}" by auto
    with run have "\<not> up_at w (j + ?n - (i - k))" unfolding down_run_def by blast
    with at [of k] that show ?thesis by (metis less_imp_le_nat up_at_mod)
  qed
  moreover have at_j: "(s + i) mod ?n = j" using at [of i] j by simp
  moreover from at_j up have "up_at w (s + i)" by (metis up_at_mod)
  ultimately have "find (\<lambda>i. up_at w (s + i)) [0..<?n] = Some i" using in_n by (simp add: find_upt_Some)
  moreover have "s < ?n" unfolding s by (rule mod_less_divisor) (use in_n in linarith)
  ultimately show "s \<in> {s. s < ?n \<and> rr_pick w s = Some j}" using at_j by (simp add: rr_pick_def)
qed

lemma card_starts:
  assumes j: "j < length (listed w)" and "up_at w j" and run: "down_run w j d"
  shows "card {s. s < length (listed w) \<and> rr_pick w s = Some j} = d + 1"
proof -
  let ?n = "length (listed w)"
  from run have d: "d < ?n" by (simp add: down_run_def)
  have "inj_on (\<lambda>i. (j + ?n - i) mod ?n) {0..d}"
  proof (rule inj_onI)
    fix x y assume xy: "x \<in> {0..d}" "y \<in> {0..d}" and eq: "(j + ?n - x) mod ?n = (j + ?n - y) mod ?n"
    have "inj_on (\<lambda>t. t mod ?n) {j + 1..<j + 1 + ?n}"
      by (rule bij_betw_imp_inj_on [OF window_bij]) (use d in linarith)
    moreover have "j + ?n - x \<in> {j + 1..<j + 1 + ?n}" "j + ?n - y \<in> {j + 1..<j + 1 + ?n}"
      using xy d by auto
    ultimately have "j + ?n - x = j + ?n - y" using eq by (auto dest: inj_onD)
    with xy d show "x = y" by simp
  qed
  then show ?thesis by (simp add: starts_of [OF assms] card_image)
qed

section \<open>Properties\<close>

text \<open>
  C20. Away from the counter's wrap, round robin returns a healthy registered backend whenever
  there is one and reports that there is none exactly when there is none; every call on a
  non-empty pool advances the counter by one.
\<close>

theorem round_robin_contract:
  assumes "rr_ok w" and "no_wrap current w"
  shows "(snd (RoundRobin_GetServer current w) = Inl ErrNoBackends \<longleftrightarrow> ListHealthyBackends w = []) \<and>
    (\<forall>p. snd (RoundRobin_GetServer current w) = Inr p \<longrightarrow> p \<in> set (ListHealthyBackends w)) \<and>
    fst (RoundRobin_GetServer current w) = (if listed w = [] then current else current + 1)"
  using rrs.get_error_iff [OF assms, of ErrNoBackends] rrs.get_routable [OF assms]
    RoundRobin_nonempty [OF assms(1), of current]
  by (cases "listed w = []") (simp_all add: RoundRobin_empty)

lemma pair_rr_ok: "rr_ok pair_world"
  using pair_world_facts(1,3) by (simp add: rr_ok_def sel_ok_def)

theorem round_robin_contract_witness:
  "snd (RoundRobin_GetServer 7 pair_world) \<noteq> Inl ErrNoBackends"
  using round_robin_contract [OF pair_rr_ok, of 7] by (simp add: no_wrap_def pair_world_facts)

section \<open>At the wrap\<close>

text \<open>The position of the \<open>i\<close>-th backend that a call looks at, of \<open>n\<close>, for any counter.\<close>

definition rr_position :: "u32 \<Rightarrow> nat \<Rightarrow> nat \<Rightarrow> nat" where
  "rr_position current n i = (unat current + i) mod 2 ^ 32 mod n"

lemma rr_index_position:
  assumes "n < 2 ^ 32" and "i < n"
  shows "rr_index current (word_of_nat n) (word_of_nat i) = rr_position current n i"
proof -
  have "unat (word_of_nat n :: u32) = n" "unat (word_of_nat i :: u32) = i"
    using assms by (simp_all add: unat_of_nat)
  then show ?thesis by (simp add: rr_index_def rr_position_def unat_mod unat_word_ariths)
qed

lemma RoundRobin_positions:
  assumes "rr_ok w" and "length (listed w) = n" and "0 < n"
  shows "snd (RoundRobin_GetServer current w) =
    (case find (\<lambda>i. Healthy (cells w (listed w ! rr_position current n i))) [0..<n] of
       Some i \<Rightarrow> Inr (listed w ! rr_position current n i)
     | None \<Rightarrow> Inl ErrNoBackends)"
proof -
  from assms have n: "n < 2 ^ 32" and ne: "listed w \<noteq> []" by (auto simp: rr_ok_def)
  then have u: "unat (word_of_nat n :: u32) = n" by (simp add: unat_of_nat)
  let ?P = "\<lambda>i. Healthy (cells w (listed w ! rr_index current (word_of_nat n) i))"
    and ?Q = "\<lambda>i. Healthy (cells w (listed w ! rr_position current n i))"
  have "find (?P \<circ> word_of_nat) [0..<n] = find ?Q [0..<n]"
    by (intro find_cong_set) (simp add: rr_index_position [OF n])
  then have f: "find ?P (map word_of_nat [0..<n]) = map_option word_of_nat (find ?Q [0..<n])"
    by (simp add: find_map_word)
  show ?thesis
  proof (cases "find ?Q [0..<n]")
    case None
    with f show ?thesis by (simp add: RoundRobin_nonempty [OF assms(1) ne] assms(2) rr_scan_def u)
  next
    case (Some i)
    then have "i < n" by (simp add: find_upt_Some)
    with f Some show ?thesis
      by (simp add: RoundRobin_nonempty [OF assms(1) ne] assms(2) rr_scan_def u rr_index_position [OF n])
  qed
qed

text \<open>
  A call that crosses the wrap looks at some position twice, unless the number of backends divides
  the number of counter values; so it does not look at another.
\<close>

lemma wrapped_collision:
  fixes M :: nat
  assumes "c < M" and "M < c + n" and "\<not> n dvd M"
  shows "\<exists>i<n. \<exists>j<n. i \<noteq> j \<and> (c + i) mod M mod n = (c + j) mod M mod n"
proof -
  let ?r = "M mod n" and ?a = "M - c"
  have n: "0 < n" "?a < n" and a: "0 < ?a" "c + ?a = M" using assms by auto
  have r: "0 < ?r" "?r < n" using assms(3) n(1) by (auto simp: dvd_eq_mod_eq_0)
  have M: "M = n * (M div n) + ?r" by simp
  show ?thesis
  proof (cases "?r \<le> ?a")
    case True
    have "c + (?a - ?r) = n * (M div n)" using M a(2) True by linarith
    moreover have "n * (M div n) < M" using M r(1) by linarith
    ultimately have "(c + (?a - ?r)) mod M mod n = 0" by simp
    moreover have "(c + ?a) mod M mod n = 0" using a(2) by simp
    ultimately show ?thesis using n r True by (intro exI [of _ "?a - ?r"] conjI exI [of _ ?a]) auto
  next
    case False
    have "c = n * (M div n) + (?r - ?a)" using M a(2) False by linarith
    moreover have "?r - ?a < n" using r(2) by linarith
    ultimately have "c mod n = ?r - ?a" by (metis mod_less mod_mult_self4)
    then have first: "(c + 0) mod M mod n = ?r - ?a" using assms(1) by simp
    have "c + ?r = M + (?r - ?a)" using a(2) False by linarith
    moreover have "?r - ?a < M" using M r a(1) by (metis diff_less le_add2 order_less_le_trans)
    ultimately have "(c + ?r) mod M mod n = ?r - ?a"
      using \<open>?r - ?a < n\<close> by (simp only: mod_add_self1 mod_less)
    with first r n show ?thesis by (intro exI [of _ 0] conjI exI [of _ ?r]) auto
  qed
qed

lemma positions_complete_iff:
  assumes "0 < n"
  shows "(\<forall>k<n. \<exists>i<n. rr_position current n i = k) \<longleftrightarrow> unat current + n \<le> 2 ^ 32 \<or> n dvd 2 ^ 32"
proof -
  have c: "unat current < 2 ^ 32" using unat_bound [of current] by simp
  have pos: "rr_position current n i < n" for i using assms by (simp add: rr_position_def)
  show ?thesis
  proof
    assume "\<forall>k<n. \<exists>i<n. rr_position current n i = k"
    with pos have "rr_position current n ` {..<n} = {..<n}" by (auto simp: image_iff)
    then have "inj_on (rr_position current n) {..<n}" by (intro eq_card_imp_inj_on) simp_all
    then have "\<not> (\<exists>i<n. \<exists>j<n. i \<noteq> j \<and> (unat current + i) mod 2 ^ 32 mod n = (unat current + j) mod 2 ^ 32 mod n)"
      unfolding inj_on_def rr_position_def by blast
    then show "unat current + n \<le> 2 ^ 32 \<or> n dvd 2 ^ 32"
      using wrapped_collision [OF c] not_le by blast
  next
    assume "unat current + n \<le> 2 ^ 32 \<or> n dvd 2 ^ 32"
    then have "rr_position current n i = (unat current + i) mod n" if "i < n" for i
    proof
      assume "unat current + n \<le> 2 ^ 32"
      with that have "unat current + i < 2 ^ 32" by linarith
      then show ?thesis unfolding rr_position_def by (simp only: mod_less)
    next
      assume "n dvd 2 ^ 32"
      then show ?thesis unfolding rr_position_def by (rule mod_mod_cancel)
    qed
    with mod_shift_surj [of _ n "unat current"] show "\<forall>k<n. \<exists>i<n. rr_position current n i = k" by metis
  qed
qed

text \<open>A pool of \<open>n\<close> backends of which only the one at position \<open>k\<close> is healthy.\<close>

definition one_up :: "nat \<Rightarrow> nat \<Rightarrow> world" where
  "one_up n k = boot (map (\<lambda>j. if j = k then healthy_backend ''up'' 1 0 else NewBackend ''down'' None 1) [0..<n])"

lemma one_up_facts:
  assumes "n < 2 ^ 32"
  shows "rr_ok (one_up n k)" and "length (listed (one_up n k)) = n"
    and "j < n \<Longrightarrow> Healthy (cells (one_up n k) (listed (one_up n k) ! j)) \<longleftrightarrow> j = k"
    and "k < n \<Longrightarrow> ListHealthyBackends (one_up n k) \<noteq> []"
proof -
  let ?bs = "map (\<lambda>j. if j = k then healthy_backend ''up'' 1 0 else NewBackend ''down'' None 1) [0..<n]"
  show "rr_ok (one_up n k)" "length (listed (one_up n k)) = n"
    using assms by (simp_all add: one_up_def rr_ok_def boot_facts)
  have h: "Healthy (cells (one_up n k) (listed (one_up n k) ! j)) \<longleftrightarrow> j = k" if "j < n" for j
    using that cells_boot_nth [of j ?bs] unfolding one_up_def boot_facts
    by (simp del: upt_Suc add: Healthy_def healthy_backend_def)
  show "j < n \<Longrightarrow> Healthy (cells (one_up n k) (listed (one_up n k) ! j)) \<longleftrightarrow> j = k" by (rule h)
  show "k < n \<Longrightarrow> ListHealthyBackends (one_up n k) \<noteq> []"
    using h [of k] \<open>length (listed (one_up n k)) = n\<close> by (auto simp: reg_simps filter_empty_conv intro: nth_mem)
qed

text \<open>
  C36. Exactly when the scan can miss.  For any pool and any counter a call returns the first healthy
  backend among the positions it looks at, which are the counter's value and its successors modulo
  2^32, taken modulo the number \<open>n\<close> of backends.  It is sure to find a healthy backend, whenever
  there is one, if and only if these additions do not wrap or \<open>n\<close> is a divisor of 2^32: in a pool
  of any other size, each of the last \<open>n - 1\<close> counter values misses some position, so that a call
  reports no backend although the one at that position is healthy.
\<close>

theorem round_robin_complete_iff:
  assumes "0 < n" and "n < 2 ^ 32"
  shows "(\<forall>w. rr_ok w \<and> length (listed w) = n \<longrightarrow>
      snd (RoundRobin_GetServer current w) =
        (case find (\<lambda>i. Healthy (cells w (listed w ! ((unat current + i) mod 2 ^ 32 mod n)))) [0..<n] of
           Some i \<Rightarrow> Inr (listed w ! ((unat current + i) mod 2 ^ 32 mod n))
         | None \<Rightarrow> Inl ErrNoBackends)) \<and>
    ((\<forall>w. rr_ok w \<and> length (listed w) = n \<and> ListHealthyBackends w \<noteq> [] \<longrightarrow>
        snd (RoundRobin_GetServer current w) \<noteq> Inl ErrNoBackends) \<longleftrightarrow>
      unat current + n \<le> 2 ^ 32 \<or> n dvd 2 ^ 32)"
proof (intro conjI allI impI)
  fix w
  assume "rr_ok w \<and> length (listed w) = n"
  then show "snd (RoundRobin_GetServer current w) =
        (case find (\<lambda>i. Healthy (cells w (listed w ! ((unat current + i) mod 2 ^ 32 mod n)))) [0..<n] of
           Some i \<Rightarrow> Inr (listed w ! ((unat current + i) mod 2 ^ 32 mod n))
         | None \<Rightarrow> Inl ErrNoBackends)"
    using RoundRobin_positions [of w n current] assms(1) by (simp only: rr_position_def)
next
  have missed: "snd (RoundRobin_GetServer current w) = Inl ErrNoBackends \<longleftrightarrow>
      (\<forall>i<n. \<not> Healthy (cells w (listed w ! rr_position current n i)))" if "rr_ok w" "length (listed w) = n" for w
    using RoundRobin_positions [OF that assms(1), of current] by (auto simp: find_None_word find_upt_Some split: option.splits)
  show "(\<forall>w. rr_ok w \<and> length (listed w) = n \<and> ListHealthyBackends w \<noteq> [] \<longrightarrow>
      snd (RoundRobin_GetServer current w) \<noteq> Inl ErrNoBackends) \<longleftrightarrow> unat current + n \<le> 2 ^ 32 \<or> n dvd 2 ^ 32"
    unfolding positions_complete_iff [OF assms(1), symmetric]
  proof
    assume all: "\<forall>w. rr_ok w \<and> length (listed w) = n \<and> ListHealthyBackends w \<noteq> [] \<longrightarrow>
        snd (RoundRobin_GetServer current w) \<noteq> Inl ErrNoBackends"
    have "\<exists>i<n. rr_position current n i = k" if k: "k < n" for k
    proof -
      note up = one_up_facts [OF assms(2)]
      from all up(1,2) up(4) [OF k] have "snd (RoundRobin_GetServer current (one_up n k)) \<noteq> Inl ErrNoBackends" by blast
      with missed [OF up(1,2)] obtain i where
        "i < n" "Healthy (cells (one_up n k) (listed (one_up n k) ! rr_position current n i))" by blast
      moreover have "rr_position current n i < n" using assms(1) by (simp add: rr_position_def)
      ultimately show ?thesis using up(3) by blast
    qed
    then show "\<forall>k<n. \<exists>i<n. rr_position current n i = k" by blast
  next
    assume "\<forall>k<n. \<exists>i<n. rr_position current n i = k"
    then show "\<forall>w. rr_ok w \<and> length (listed w) = n \<and> ListHealthyBackends w \<noteq> [] \<longrightarrow>
        snd (RoundRobin_GetServer current w) \<noteq> Inl ErrNoBackends"
      using missed by (fastforce simp: reg_simps filter_empty_conv in_set_conv_nth)
  qed
qed

lemma round_robin_complete_iff_witness:
  "\<exists>w. length (listed w) = 3 \<and> ListHealthyBackends w \<noteq> [] \<and>
     snd (RoundRobin_GetServer 4294967295 w) = Inl ErrNoBackends"
proof -
  have "\<not> (3::nat) dvd 2 ^ 32" by simp
  with round_robin_complete_iff [of 3 4294967295] show ?thesis by auto
qed

text \<open>
  Fairness: while all registered backends are healthy, m times as many consecutive calls as
  there are backends select every backend exactly m times (away from the counter's wrap).
\<close>

theorem round_robin_fair:
  assumes "rr_ok w" and "\<forall>q\<in>set (listed w). Healthy (cells w q)" and "p \<in> set (listed w)"
    and "unat current + (m + 1) * length (listed w) \<le> 2 ^ 32"
  shows "count_list (rr_run (m * length (listed w)) current w) (Inr p) = m"
proof -
  from assms(3) obtain j where j: "j < length (listed w)" "listed w ! j = p"
    by (auto simp: in_set_conv_nth)
  have up: "up_at w k" for k
  proof -
    from j(1) have "0 < length (listed w)" by linarith
    then have "k mod length (listed w) < length (listed w)" by (rule mod_less_divisor)
    with assms(2) show ?thesis unfolding up_at_def by (metis nth_mem)
  qed
  then have "down_run w j 0" using j(1) by (auto simp: down_run_def)
  with up [of j] card_starts [OF j(1)] rr_count [OF assms(1) j(1), of current m] assms(4) j(2)
  show ?thesis by (simp add: algebra_simps)
qed

theorem round_robin_fair_witness:
  "count_list (rr_run 6 4 pair_world) (Inr 2) = 3"
  using round_robin_fair [OF pair_rr_ok, of 2 4 3]
  by (simp add: pair_world_facts Healthy_def healthy_backend_def)

text \<open>
  C37. The unfairness the comment on \<open>GetServer\<close> warns of, exactly: a healthy backend whose d
  cyclic predecessors are down (and no more than d) is selected m * (d + 1) times in m cycles
  of calls, so it takes over the whole share of the backends before it.
\<close>

theorem round_robin_share_with_failures:
  assumes "rr_ok w" and "j < length (listed w)" and "up_at w j" and "down_run w j d"
    and "unat current + (m + 1) * length (listed w) \<le> 2 ^ 32"
  shows "count_list (rr_run (m * length (listed w)) current w) (Inr (listed w ! j)) = m * (d + 1)"
  using rr_count [OF assms(1,2), of current m] card_starts [OF assms(2-4)] assms(5)
  by (simp add: algebra_simps)

definition one_down_world :: world where
  "one_down_world = boot [healthy_backend ''a'' 1 0, NewBackend ''b'' None 1, healthy_backend ''c'' 1 0]"

theorem round_robin_share_with_failures_witness:
  "count_list (rr_run 15 0 one_down_world) (Inr 3) = 10"
proof -
  let ?bs = "[healthy_backend ''a'' 1 0, NewBackend ''b'' None 1, healthy_backend ''c'' 1 0]"
  have l: "listed one_down_world = [1, 2, 3]"
    unfolding one_down_world_def by (subst listed_boot) (simp add: upt_rec)
  have c: "cells one_down_world (Suc 0) = ?bs ! 0" "cells one_down_world 2 = ?bs ! 1"
    "cells one_down_world 3 = ?bs ! 2"
    using cells_boot_nth [of 0 ?bs] cells_boot_nth [of 1 ?bs] cells_boot_nth [of 2 ?bs]
    by (simp_all add: one_down_world_def numeral_2_eq_2 numeral_3_eq_3)
  have "rr_ok one_down_world"
    using boot_facts(2) [of ?bs] by (simp add: rr_ok_def l) (simp add: one_down_world_def)
  moreover have "up_at one_down_world 2" "up_at one_down_world 3" "\<not> up_at one_down_world 4"
    by (simp_all add: up_at_def l c) (simp_all add: Healthy_def healthy_backend_def)
  moreover from this have "down_run one_down_world 2 1"
    by (simp add: down_run_def l)
  ultimately show ?thesis
    using round_robin_share_with_failures [of one_down_world 2 1 0 5] by (simp add: l)
qed

end
