(* ===== verification/Proxy.thy ===== *)
theory Proxy
  imports ReverseProxy RoundRobin
begin

text \<open>
  The handler of \<open>internal/proxy\<close> (proxy.go): buffering of the body, the failover loop, one
  attempt with its connection count, and the adapters that make a selector a balancer.

  Around the handler are three parameters: \<open>sel\<close>, the configured balancer; \<open>rt\<close>, the network
  round trip (which takes time, so it may change the pool and the rest of the environment:
  other requests, the prober and the management API run meanwhile); and \<open>cancelled\<close>, which says
  whether the client has gone.  The state carries the pool, an environment of any type for those
  parameters, and a history of the attempts made so far, which the code does not have and no
  step reads.
\<close>

section \<open>State\<close>

text \<open>
  The outcome of a round trip: a response; a transport error, which calls the error handler; or
  a response whose body fails while it is copied, on which \<open>ReverseProxy\<close> aborts the handler.
\<close>

datatype upstream = Answered response | Unreachable | CopyAborted response

record attempt =
  att_target :: ptr
  att_request :: "request option" \<comment> \<open>\<open>None\<close>: nothing was sent\<close>
  att_outcome :: upstream

record 'e proxy_state =
  pool :: world
  env :: 'e
  history :: "attempt list"

record handler =
  MaxRetries :: int
  handler_trusted :: trusted_proxies

definition NewHandler :: "int \<Rightarrow> trusted_proxies \<Rightarrow> handler" where
  "NewHandler maxRetries t = \<lparr>MaxRetries = maxRetries, handler_trusted = t\<rparr>"

type_synonym 'e balancer = "request \<Rightarrow> world \<Rightarrow> 'e \<Rightarrow> 'e \<times> (sel_error + ptr) go"
type_synonym 'e round_trip = "ptr \<Rightarrow> request \<Rightarrow> world \<times> 'e \<Rightarrow> (world \<times> 'e) \<times> upstream"

section \<open>Adapters\<close>

definition Rotate :: "(world \<Rightarrow> 'e \<Rightarrow> 'e \<times> (sel_error + ptr) go) \<Rightarrow> 'e balancer" where
  "Rotate getServer = (\<lambda>r. getServer)"

definition ByClientIP ::
    "(string \<Rightarrow> world \<Rightarrow> 'e \<Rightarrow> 'e \<times> (sel_error + ptr) go) \<Rightarrow> trusted_proxies \<Rightarrow> 'e balancer" where
  "ByClientIP getServerForKey t = (\<lambda>r. getServerForKey (ClientIP t r))"

section \<open>One attempt\<close>

definition add_conns :: "ptr \<Rightarrow> i32 \<Rightarrow> world \<Rightarrow> world" where
  "add_conns p d w =
     w\<lparr>cells := (cells w)(p := (cells w p)\<lparr>ActiveConnectionsNo := ActiveConnectionsNo (cells w p) + d\<rparr>)\<rparr>"

definition log_attempt :: "ptr \<Rightarrow> request option \<Rightarrow> upstream \<Rightarrow> 'e proxy_state \<Rightarrow> 'e proxy_state" where
  "log_attempt p out res s = s\<lparr>history := history s @ [\<lparr>att_target = p, att_request = out, att_outcome = res\<rparr>]\<rparr>"

definition clean_response :: "response \<Rightarrow> response" where
  "clean_response resp = resp\<lparr>RespHeader := removeHopByHopHeaders (RespHeader resp)\<rparr>"

text \<open>
  \<open>rp.ServeHTTP\<close> with the balancer's hook and error handler: the response that was written, or
  \<open>None\<close> when the error handler ran.  Hop-by-hop headers of the response are removed.
\<close>

definition reverse_proxy ::
    "handler \<Rightarrow> 'e round_trip \<Rightarrow> request \<Rightarrow> ptr \<Rightarrow> 'e proxy_state \<Rightarrow> 'e proxy_state \<times> response option go" where
  "reverse_proxy h rt r target s =
     (if \<not> list_all (code_in 32 126) (upgradeType (Header r))
      then (log_attempt target None Unreachable s, Ret None)
      else case URL (cells (pool s) target) of
        None \<Rightarrow> (s, Panic NilDereference)
      | Some u \<Rightarrow>
          (case outbound (handler_trusted h) u r of
             None \<Rightarrow> (log_attempt target None Unreachable s, Ret None)
           | Some out \<Rightarrow>
               (case rt target out (pool s, env s) of
                  ((w', e'), res) \<Rightarrow>
                    (log_attempt target (Some out) res (s\<lparr>pool := w', env := e'\<rparr>),
                     case res of
                       Answered resp \<Rightarrow> Ret (Some (clean_response resp))
                     | Unreachable \<Rightarrow> Ret None
                     | CopyAborted resp \<Rightarrow> Panic AbortHandler))))"

text \<open>The deferred decrement runs on every way out, a panic included.\<close>

definition proxyOnce ::
    "handler \<Rightarrow> 'e round_trip \<Rightarrow> request \<Rightarrow> ptr \<Rightarrow> 'e proxy_state \<Rightarrow> 'e proxy_state \<times> response option go" where
  "proxyOnce h rt r target s =
     (if target = 0 then (s, Panic NilDereference)
      else
        (case reverse_proxy h rt r target (s\<lparr>pool := add_conns target 1 (pool s)\<rparr>) of
           (s', res) \<Rightarrow> (s'\<lparr>pool := add_conns target (-1) (pool s')\<rparr>, res)))"

section \<open>The failover loop\<close>

definition maxRetriesFor :: "handler \<Rightarrow> request \<Rightarrow> int" where
  "maxRetriesFor h r = (if Method r = ''POST'' \<or> Method r = ''PATCH'' then 0 else MaxRetries h)"

text \<open>What the client sees: a response, or nothing because it has gone.\<close>

datatype reply = Replied response | Silent

definition rewind_body :: "request \<Rightarrow> string + request" where
  "rewind_body r =
     (case GetBody r of
        None \<Rightarrow> Inr r
      | Some (Inl err) \<Rightarrow> Inl err
      | Some (Inr body) \<Rightarrow> Inr (r\<lparr>Body := Some (Reader body None)\<rparr>))"

text \<open>An attempt reads the body to its end.\<close>

definition consume_body :: "request \<Rightarrow> request" where
  "consume_body r = r\<lparr>Body := map_option (\<lambda>_. Reader [] None) (Body r)\<rparr>"

lemma consume_body_simps [simp]:
  "Method (consume_body r) = Method r" "GetBody (consume_body r) = GetBody r"
  "Header (consume_body r) = Header r" "RemoteAddr (consume_body r) = RemoteAddr r"
  by (simp_all add: consume_body_def)

function serve_loop ::
    "handler \<Rightarrow> 'e balancer \<Rightarrow> 'e round_trip \<Rightarrow> ('e \<Rightarrow> bool) \<Rightarrow> int \<Rightarrow> request \<Rightarrow> 'e proxy_state
      \<Rightarrow> 'e proxy_state \<times> reply go" where
  "serve_loop h sel rt cancelled att r s =
     (if maxRetriesFor h r < att
      then (s, Ret (Replied (http_Error ''no healthy backend could serve the request'' 503)))
      else if cancelled (env s) then (s, Ret Silent)
      else case rewind_body r of
        Inl err \<Rightarrow> (s, Ret (Replied (http_Error ''failed to rewind request body'' 500)))
      | Inr r1 \<Rightarrow>
          (case sel r1 (pool s) (env s) of
             (e1, Panic p) \<Rightarrow> (s\<lparr>env := e1\<rparr>, Panic p)
           | (e1, Ret (Inl err)) \<Rightarrow>
               (s\<lparr>env := e1\<rparr>, Ret (Replied (http_Error ''no healthy backends registered'' 503)))
           | (e1, Ret (Inr target)) \<Rightarrow>
               (case proxyOnce h rt r1 target (s\<lparr>env := e1\<rparr>) of
                  (s2, Panic p) \<Rightarrow> (s2, Panic p)
                | (s2, Ret (Some resp)) \<Rightarrow> (s2, Ret (Replied resp))
                | (s2, Ret None) \<Rightarrow> serve_loop h sel rt cancelled (att + 1) (consume_body r1) s2)))"
  by pat_completeness auto

lemma rewind_body_simps [simp]:
  "rewind_body r = Inr r1 \<Longrightarrow> Method r1 = Method r"
  "rewind_body r = Inr r1 \<Longrightarrow> GetBody r1 = GetBody r"
  "rewind_body r = Inr r1 \<Longrightarrow> Header r1 = Header r"
  "rewind_body r = Inr r1 \<Longrightarrow> RemoteAddr r1 = RemoteAddr r"
  by (auto simp: rewind_body_def split: option.splits sum.splits)

lemma maxRetriesFor_cong: "Method r' = Method r \<Longrightarrow> maxRetriesFor h r' = maxRetriesFor h r"
  by (simp add: maxRetriesFor_def)

termination serve_loop
  by (relation "measure (\<lambda>(h, sel, rt, c, att, r, s). nat (maxRetriesFor h r + 1 - att))")
    (auto simp: maxRetriesFor_def)

declare serve_loop.simps [simp del]

definition ServeHTTP ::
    "handler \<Rightarrow> 'e balancer \<Rightarrow> 'e round_trip \<Rightarrow> ('e \<Rightarrow> bool) \<Rightarrow> request \<Rightarrow> 'e proxy_state
      \<Rightarrow> 'e proxy_state \<times> reply go" where
  "ServeHTTP h sel rt cancelled r s =
     (case Body r of
        None \<Rightarrow> serve_loop h sel rt cancelled 0 r s
      | Some rd \<Rightarrow>
          (case ReadAll rd of
             Inl err \<Rightarrow> (s, Ret (Replied (http_Error ''failed to read request body'' 400)))
           | Inr body \<Rightarrow>
               serve_loop h sel rt cancelled 0
                 ((consume_body r)\<lparr>GetBody := Some (Inr body)\<rparr>) s))"

section \<open>The loop as a step relation\<close>

text \<open>
  The runs of the loop, one rule per way an iteration can end.  The properties are proved by
  induction over the runs.
\<close>

definition no_backends_reply :: response where
  "no_backends_reply = http_Error ''no healthy backends registered'' 503"

definition exhausted_reply :: response where
  "exhausted_reply = http_Error ''no healthy backend could serve the request'' 503"

definition rewind_failed_reply :: response where
  "rewind_failed_reply = http_Error ''failed to rewind request body'' 500"

definition body_failed_reply :: response where
  "body_failed_reply = http_Error ''failed to read request body'' 400"

lemmas reply_defs = no_backends_reply_def exhausted_reply_def rewind_failed_reply_def body_failed_reply_def

inductive serve_run ::
    "handler \<Rightarrow> 'e balancer \<Rightarrow> 'e round_trip \<Rightarrow> ('e \<Rightarrow> bool) \<Rightarrow> int \<Rightarrow> request \<Rightarrow> 'e proxy_state
      \<Rightarrow> 'e proxy_state \<Rightarrow> reply go \<Rightarrow> bool"
  for h sel rt cancelled
where
  exhausted: "maxRetriesFor h r < att \<Longrightarrow>
    serve_run h sel rt cancelled att r s s (Ret (Replied exhausted_reply))"
| client_gone: "att \<le> maxRetriesFor h r \<Longrightarrow> cancelled (env s) \<Longrightarrow>
    serve_run h sel rt cancelled att r s s (Ret Silent)"
| rewind_failed: "att \<le> maxRetriesFor h r \<Longrightarrow> \<not> cancelled (env s) \<Longrightarrow> rewind_body r = Inl err \<Longrightarrow>
    serve_run h sel rt cancelled att r s s (Ret (Replied rewind_failed_reply))"
| sel_panic: "att \<le> maxRetriesFor h r \<Longrightarrow> \<not> cancelled (env s) \<Longrightarrow> rewind_body r = Inr r1 \<Longrightarrow>
    sel r1 (pool s) (env s) = (e1, Panic p) \<Longrightarrow>
    serve_run h sel rt cancelled att r s (s\<lparr>env := e1\<rparr>) (Panic p)"
| no_backend: "att \<le> maxRetriesFor h r \<Longrightarrow> \<not> cancelled (env s) \<Longrightarrow> rewind_body r = Inr r1 \<Longrightarrow>
    sel r1 (pool s) (env s) = (e1, Ret (Inl err)) \<Longrightarrow>
    serve_run h sel rt cancelled att r s (s\<lparr>env := e1\<rparr>) (Ret (Replied no_backends_reply))"
| attempt_panic: "att \<le> maxRetriesFor h r \<Longrightarrow> \<not> cancelled (env s) \<Longrightarrow> rewind_body r = Inr r1 \<Longrightarrow>
    sel r1 (pool s) (env s) = (e1, Ret (Inr target)) \<Longrightarrow>
    proxyOnce h rt r1 target (s\<lparr>env := e1\<rparr>) = (s2, Panic p) \<Longrightarrow>
    serve_run h sel rt cancelled att r s s2 (Panic p)"
| served: "att \<le> maxRetriesFor h r \<Longrightarrow> \<not> cancelled (env s) \<Longrightarrow> rewind_body r = Inr r1 \<Longrightarrow>
    sel r1 (pool s) (env s) = (e1, Ret (Inr target)) \<Longrightarrow>
    proxyOnce h rt r1 target (s\<lparr>env := e1\<rparr>) = (s2, Ret (Some resp)) \<Longrightarrow>
    serve_run h sel rt cancelled att r s s2 (Ret (Replied resp))"
| failover: "att \<le> maxRetriesFor h r \<Longrightarrow> \<not> cancelled (env s) \<Longrightarrow> rewind_body r = Inr r1 \<Longrightarrow>
    sel r1 (pool s) (env s) = (e1, Ret (Inr target)) \<Longrightarrow>
    proxyOnce h rt r1 target (s\<lparr>env := e1\<rparr>) = (s2, Ret None) \<Longrightarrow>
    serve_run h sel rt cancelled (att + 1) (consume_body r1) s2 s' res \<Longrightarrow>
    serve_run h sel rt cancelled att r s s' res"

lemma serve_run_loop:
  "serve_run h sel rt cancelled att r s s' res \<Longrightarrow> serve_loop h sel rt cancelled att r s = (s', res)"
  by (induction rule: serve_run.induct) (subst serve_loop.simps, simp add: reply_defs)+

lemma serve_loop_run:
  "serve_loop h sel rt cancelled att r s = (s', res) \<Longrightarrow> serve_run h sel rt cancelled att r s s' res"
proof (induction h sel rt cancelled att r s arbitrary: s' res rule: serve_loop.induct)
  case (1 h sel rt cancelled att r s)
  show ?case
  proof (cases "maxRetriesFor h r < att \<or> cancelled (env s)")
    case True
    then show ?thesis using "1.prems"
      by (subst (asm) serve_loop.simps)
        (auto simp flip: reply_defs intro: serve_run.intros split: if_splits)
  next
    case go: False
    show ?thesis
    proof (cases "rewind_body r")
      case (Inl err)
      with go "1.prems" show ?thesis
        by (subst (asm) serve_loop.simps) (auto simp flip: reply_defs intro: serve_run.intros)
    next
      case (Inr r1)
      obtain e1 picked where sel: "sel r1 (pool s) (env s) = (e1, picked)" by fastforce
      note unfolded = "1.prems" [unfolded serve_loop.simps [of h sel rt cancelled att r s]]
      show ?thesis
      proof (cases "\<exists>target. picked = Ret (Inr target)")
        case False
        then consider p where "picked = Panic p" | err where "picked = Ret (Inl err)"
          by (metis go.exhaust sum.exhaust)
        then show ?thesis using go Inr sel unfolded
          by cases (auto simp flip: reply_defs intro: serve_run.intros)
      next
        case True
        then obtain target where t: "picked = Ret (Inr target)" by blast
        obtain s2 out where once: "proxyOnce h rt r1 target (s\<lparr>env := e1\<rparr>) = (s2, out)" by fastforce
        show ?thesis
        proof (cases "out = Ret None")
          case True
          with t sel once go Inr unfolded
          have "serve_loop h sel rt cancelled (att + 1) (consume_body r1) s2 = (s', res)" by simp
          with "1.IH" [OF _ _ Inr sel [symmetric] t refl once [symmetric] True refl] go
          have "serve_run h sel rt cancelled (att + 1) (consume_body r1) s2 s' res" by simp
          with go Inr sel t once True show ?thesis by (auto intro: serve_run.failover)
        next
          case False
          then show ?thesis using go Inr sel t once unfolded
            by (auto intro: serve_run.intros split: go.splits option.splits)
        qed
      qed
    qed
  qed
qed

lemma serve_loop_eq_run:
  "serve_loop h sel rt cancelled att r s = (s', res) \<longleftrightarrow> serve_run h sel rt cancelled att r s s' res"
  using serve_run_loop serve_loop_run by blast

section \<open>What one attempt does\<close>

lemma history_add_conns [simp]: "history (s\<lparr>pool := w\<rparr>) = history s"
  by simp

text \<open>The ways an attempt can end, with what it leaves in the history.\<close>

lemma proxyOnce_cases:
  assumes "proxyOnce h rt r target s = (s', res)"
  obtains
    (nil) "res = Panic NilDereference" "history s' = history s" "env s' = env s"
      "target = 0 \<and> pool s' = pool s \<or>
        URL (cells (pool s) target) = None \<and> pool s' = add_conns target (-1) (add_conns target 1 (pool s))"
  | (unsent) "res = Ret None" "env s' = env s" "pool s' = add_conns target (-1) (add_conns target 1 (pool s))"
      "history s' = history s @ [\<lparr>att_target = target, att_request = None, att_outcome = Unreachable\<rparr>]"
      "\<not> list_all (code_in 32 126) (upgradeType (Header r))"
  | (sent) u out w' outcome where "target \<noteq> 0" "URL (cells (pool s) target) = Some u"
      "outbound (handler_trusted h) u r = Some out"
      "rt target out (add_conns target 1 (pool s), env s) = ((w', env s'), outcome)"
      "pool s' = add_conns target (-1) w'"
      "history s' = history s @ [\<lparr>att_target = target, att_request = Some out, att_outcome = outcome\<rparr>]"
      "res = (case outcome of Answered resp \<Rightarrow> Ret (Some (clean_response resp))
        | Unreachable \<Rightarrow> Ret None | CopyAborted resp \<Rightarrow> Panic AbortHandler)"
proof (cases "target = 0")
  case True
  with assms show ?thesis by (intro nil) (auto simp: proxyOnce_def)
next
  case t: False
  have url: "URL (cells (add_conns target 1 (pool s)) target) = URL (cells (pool s) target)"
    by (simp add: add_conns_def)
  show ?thesis
  proof (cases "list_all (code_in 32 126) (upgradeType (Header r))")
    case False
    with assms t show ?thesis
      by (intro unsent) (auto simp: proxyOnce_def reverse_proxy_def log_attempt_def)
  next
    case up: True
    show ?thesis
    proof (cases "URL (cells (pool s) target)")
      case None
      with assms t up url show ?thesis by (intro nil) (auto simp: proxyOnce_def reverse_proxy_def)
    next
      case (Some u)
      with up obtain out where out: "outbound (handler_trusted h) u r = Some out"
        using outbound_None_iff [of "handler_trusted h" u r] by auto
      obtain w' e' outcome
        where rt: "rt target out (add_conns target 1 (pool s), env s) = ((w', e'), outcome)"
        by (metis surj_pair)
      from assms t up Some url out rt show ?thesis
        by (intro sent [of u out w' outcome])
          (auto simp: proxyOnce_def reverse_proxy_def log_attempt_def)
    qed
  qed
qed

section \<open>How a request ends\<close>

definition failed :: "attempt \<Rightarrow> bool" where
  "failed a \<longleftrightarrow> att_outcome a = Unreachable"

text \<open>
  How the outcome of a request follows from its attempts \<open>new\<close>, of which at most \<open>budget\<close> are
  allowed: every attempt but the last has failed, and the last decides.
\<close>

definition answered_last :: "attempt list \<Rightarrow> (upstream \<Rightarrow> bool) \<Rightarrow> bool" where
  "answered_last new P \<longleftrightarrow> new \<noteq> [] \<and> list_all failed (butlast new) \<and> P (att_outcome (last new))"

fun explained :: "nat \<Rightarrow> attempt list \<Rightarrow> reply go \<Rightarrow> bool" where
  "explained budget new (Ret (Replied resp)) \<longleftrightarrow> length new \<le> budget \<and>
     (list_all failed new \<and>
        (resp = exhausted_reply \<and> length new = budget \<or>
         resp \<in> {no_backends_reply, rewind_failed_reply} \<and> length new < budget)
      \<or> answered_last new (\<lambda>out. \<exists>resp0. out = Answered resp0 \<and> resp = clean_response resp0))"
| "explained budget new (Ret Silent) \<longleftrightarrow> length new < budget \<and> list_all failed new"
| "explained budget new (Panic p) \<longleftrightarrow>
     length new < budget \<and> list_all failed new \<or>
     length new \<le> budget \<and> p = AbortHandler \<and> answered_last new (\<lambda>out. \<exists>resp0. out = CopyAborted resp0)"

lemma answered_last_Cons [simp]:
  "new \<noteq> [] \<Longrightarrow> answered_last (a # new) P \<longleftrightarrow> failed a \<and> answered_last new P"
  by (auto simp: answered_last_def)

lemma answered_last_single [simp]: "answered_last [a] P = P (att_outcome a)" "\<not> answered_last [] P"
  by (simp_all add: answered_last_def)

lemma explained_failover:
  "explained budget new res \<Longrightarrow> failed a \<Longrightarrow> explained (Suc budget) (a # new) res"
  by (cases "(budget, new, res)" rule: explained.cases; cases "new = []") auto

text \<open>What a run adds to the history, and that it explains the outcome.\<close>

lemma serve_run_explained:
  assumes "serve_run h sel rt cancelled att r s s' res"
  shows "\<exists>new. history s' = history s @ new \<and> explained (nat (maxRetriesFor h r + 1 - att)) new res"
  using assms
proof (induction rule: serve_run.induct)
  case (attempt_panic att r s r1 e1 target s2 p)
  from attempt_panic(5) show ?case
    by (cases rule: proxyOnce_cases) (use attempt_panic(1) in \<open>auto split: upstream.splits\<close>)
next
  case (served att r s r1 e1 target s2 resp)
  from served(5) show ?case
    by (cases rule: proxyOnce_cases) (use served(1) in \<open>auto split: upstream.splits\<close>)
next
  case (failover att r s r1 e1 target s2 s' res)
  from failover(3) have m: "maxRetriesFor h (consume_body r1) = maxRetriesFor h r"
    by (intro maxRetriesFor_cong) simp
  from failover(5) obtain a where a: "history s2 = history s @ [a]" "failed a"
    by (cases rule: proxyOnce_cases) (auto simp: failed_def split: upstream.splits)
  from failover(7) m obtain new where new: "history s' = history s2 @ new"
    "explained (nat (maxRetriesFor h r + 1 - (att + 1))) new res" by auto
  from failover(1) have "Suc (nat (maxRetriesFor h r + 1 - (att + 1))) = nat (maxRetriesFor h r + 1 - att)"
    by simp
  with explained_failover [OF new(2) a(2)] new(1) a(1) show ?case by auto
qed auto

section \<open>The body of every attempt\<close>

definition carries :: "string \<Rightarrow> string \<Rightarrow> attempt \<Rightarrow> bool" where
  "carries m body a \<longleftrightarrow> (case att_request a of None \<Rightarrow> True
     | Some out \<Rightarrow> Method out = m \<and> Body out = Some (Reader body None))"

lemma rewind_body_GetBody:
  "rewind_body r = Inr r1 \<Longrightarrow> GetBody r = Some (Inr body) \<Longrightarrow> Body r1 = Some (Reader body None)"
  by (auto simp: rewind_body_def)

lemma proxyOnce_carries:
  assumes "proxyOnce h rt r1 target s = (s', res)" and "Body r1 = Some (Reader body None)"
  shows "\<exists>new. history s' = history s @ new \<and> list_all (carries (Method r1) body) new"
  using assms(1)
  by (cases rule: proxyOnce_cases) (auto simp: carries_def assms(2) outbound_fields)

lemma serve_run_carries:
  assumes "serve_run h sel rt cancelled att r s s' res" and "GetBody r = Some (Inr body)"
  shows "\<exists>new. history s' = history s @ new \<and> list_all (carries (Method r) body) new"
  using assms
proof (induction rule: serve_run.induct)
  case (failover att r s r1 e1 target s2 s' res)
  from proxyOnce_carries [OF failover(5) rewind_body_GetBody [OF failover(3) failover.prems]]
  obtain new where new: "history s2 = history s @ new" "list_all (carries (Method r) body) new"
    using failover(3) by auto
  from failover.IH failover.prems failover(3) obtain new2
    where "history s' = history s2 @ new2" "list_all (carries (Method r) body) new2" by auto
  with new show ?case by auto
next
  case (attempt_panic att r s r1 e1 target s2 p)
  from proxyOnce_carries [OF attempt_panic(5) rewind_body_GetBody [OF attempt_panic(3,6)]]
    attempt_panic(3) show ?case by simp
next
  case (served att r s r1 e1 target s2 resp)
  from proxyOnce_carries [OF served(5) rewind_body_GetBody [OF served(3,6)]] served(3)
  show ?case by simp
qed auto

section \<open>Connection counts\<close>

definition count_of :: "world \<Rightarrow> ptr \<Rightarrow> i32" where
  "count_of w p = ActiveConnectionsNo (cells w p)"

definition keeps_counts :: "'e round_trip \<Rightarrow> bool" where
  "keeps_counts rt \<longleftrightarrow> (\<forall>p out w e. count_of (fst (fst (rt p out (w, e)))) = count_of w)"

lemma count_of_add_conns: "count_of (add_conns p d w) = (count_of w)(p := count_of w p + d)"
  by (auto simp: count_of_def add_conns_def fun_eq_iff)

lemma add_conns_cancel: "add_conns p (- d) (add_conns p d w) = w"
  by (simp add: add_conns_def)

lemma proxyOnce_counts:
  assumes "proxyOnce h rt r1 target s = (s', res)" and "keeps_counts rt"
  shows "count_of (pool s') = count_of (pool s)"
  using assms(1)
proof (cases rule: proxyOnce_cases)
  case (sent u out w' outcome)
  from assms(2) sent(4) have "count_of w' = count_of (add_conns target 1 (pool s))"
    unfolding keeps_counts_def by (metis fst_conv)
  with sent(5) show ?thesis by (simp add: count_of_add_conns)
qed (auto simp: add_conns_cancel)

lemma serve_run_counts:
  assumes "serve_run h sel rt cancelled att r s s' res" and "keeps_counts rt"
  shows "count_of (pool s') = count_of (pool s)"
  using assms(1)
  by (induction rule: serve_run.induct) (auto dest: proxyOnce_counts [OF _ assms(2)])

lemma ServeHTTP_run:
  assumes "ServeHTTP h sel rt cancelled r s = (s', res)"
  obtains (unread) err where "map_option ReadAll (Body r) = Some (Inl err)" "s' = s"
      "res = Ret (Replied body_failed_reply)"
  | (no_body) "Body r = None" "serve_run h sel rt cancelled 0 r s s' res"
  | (body) body where "map_option ReadAll (Body r) = Some (Inr body)"
      "serve_run h sel rt cancelled 0 ((consume_body r)\<lparr>GetBody := Some (Inr body)\<rparr>) s s' res"
  using assms
  by (auto simp: ServeHTTP_def body_failed_reply_def serve_loop_eq_run split: option.splits sum.splits)

section \<open>A sample handler\<close>

text \<open>Two retries; a network on which the backend at address 2 answers and no other one does.\<close>

definition sample_handler :: handler where
  "sample_handler = NewHandler 2 sample_trusted"

definition sample_answer :: response where
  "sample_answer = \<lparr>Status = 200, RespHeader = Map.empty, RespBody = Raw ''ok''\<rparr>"

definition sample_network :: "'e round_trip" where
  "sample_network = (\<lambda>p out (w, e). ((w, e), if p = 2 then Answered sample_answer else Unreachable))"

definition sample_put :: request where
  "sample_put = (sample_request ''203.0.113.7:80'' [])\<lparr>Method := ''PUT'', Body := Some (Reader ''v=1'' None)\<rparr>"

definition alternate :: "nat balancer" where
  "alternate = (\<lambda>r w e. (e + 1, Ret (Inr (if even e then 1 else 2))))"

definition pair_state :: "'e \<Rightarrow> 'e proxy_state" where
  "pair_state e = \<lparr>pool = pair_world, env = e, history = []\<rparr>"

section \<open>Properties\<close>

text \<open>
  C8. How every request ends.  Unless its body cannot be read (then 400 is sent and nothing is
  tried), at most \<open>MaxRetries + 1\<close> attempts are made, one for POST and PATCH; every attempt but
  the last has failed to reach its backend; the client gets the response of the last one if that
  was answered, and the balancer's 503 for an exhausted budget exactly after that many failures.
\<close>

theorem request_outcome:
  "case ServeHTTP h sel rt cancelled r s of (s', res) \<Rightarrow>
     \<exists>new. history s' = history s @ new \<and>
       (if \<exists>err. map_option ReadAll (Body r) = Some (Inl err)
        then new = [] \<and> res = Ret (Replied body_failed_reply)
        else explained (if Method r \<in> {''POST'', ''PATCH''} then 1 else nat (MaxRetries h + 1)) new res)"
proof -
  have loop: "case serve_loop h sel rt cancelled 0 r' s of (s', res) \<Rightarrow>
      \<exists>new. history s' = history s @ new \<and>
        explained (if Method r \<in> {''POST'', ''PATCH''} then 1 else nat (MaxRetries h + 1)) new res"
    if "Method r' = Method r" for r'
  proof -
    obtain s' res where eq: "serve_loop h sel rt cancelled 0 r' s = (s', res)" by fastforce
    have budget: "nat (maxRetriesFor h r' + 1 - 0) =
        (if Method r \<in> {''POST'', ''PATCH''} then 1 else nat (MaxRetries h + 1))"
      using that by (simp add: maxRetriesFor_def)
    from serve_run_explained [OF serve_loop_run [OF eq], unfolded budget] eq show ?thesis by simp
  qed
  show ?thesis
  proof (cases "Body r")
    case None
    with loop [of r] show ?thesis by (simp add: ServeHTTP_def)
  next
    case (Some rd)
    show ?thesis
    proof (cases "ReadAll rd")
      case (Inl err)
      with Some show ?thesis by (simp add: ServeHTTP_def body_failed_reply_def)
    next
      case (Inr body)
      with Some loop [of "(consume_body r)\<lparr>GetBody := Some (Inr body)\<rparr>"] show ?thesis
        by (simp add: ServeHTTP_def)
    qed
  qed
qed

text \<open>
  C10. Every attempt carries the client's whole body: the handler reads it once and rewinds it,
  so that no retry sends what an earlier attempt has consumed.
\<close>

theorem body_replayed:
  assumes "Body r = Some rd" and "ReadAll rd = Inr body"
    and "ServeHTTP h sel rt cancelled r s = (s', res)"
  shows "\<exists>new. history s' = history s @ new \<and> list_all (carries (Method r) body) new"
  using assms(3)
proof (cases rule: ServeHTTP_run)
  case (body b)
  with assms(1,2) serve_run_carries [OF body(2)] show ?thesis by simp
qed (use assms(1,2) in auto)

lemma body_replayed_witness:
  "case ServeHTTP sample_handler alternate sample_network (\<lambda>_. False) sample_put (pair_state 0) of
     (s', res) \<Rightarrow> \<exists>new. history s' = new \<and> list_all (carries ''PUT'' ''v=1'') new"
proof -
  obtain s' res where eq: "ServeHTTP sample_handler alternate sample_network (\<lambda>_. False) sample_put
      (pair_state 0) = (s', res)" by fastforce
  have "Body sample_put = Some (Reader ''v=1'' None)" "Method sample_put = ''PUT''"
    by (simp_all add: sample_put_def)
  with body_replayed [OF _ _ eq] eq show ?thesis by (simp add: pair_state_def)
qed

text \<open>
  C11. A request gives back every connection it counted: whatever way it ends, an aborted copy or
  a selector's panic included, every backend's connection count is what it was, provided the
  round trips themselves leave the counts alone.
\<close>

theorem connection_counts_restored:
  assumes "\<And>p out w e. count_of (fst (fst (rt p out (w, e)))) = count_of w"
    and "ServeHTTP h sel rt cancelled r s = (s', res)"
  shows "count_of (pool s') = count_of (pool s)"
proof -
  from assms(1) have keep: "keeps_counts rt" by (simp add: keeps_counts_def)
  from assms(2) show ?thesis
    by (cases rule: ServeHTTP_run) (auto dest: serve_run_counts [OF _ keep])
qed

lemma connection_counts_restored_witness:
  "case ServeHTTP sample_handler alternate sample_network (\<lambda>_. False) sample_put (pair_state 0) of
     (s', res) \<Rightarrow> count_of (pool s') = count_of pair_world"
proof -
  obtain s' res where eq: "ServeHTTP sample_handler alternate sample_network (\<lambda>_. False) sample_put
      (pair_state 0) = (s', res)" by fastforce
  have "count_of (pool s') = count_of (pool (pair_state (0::nat)))"
    by (rule connection_counts_restored [OF _ eq]) (simp add: sample_network_def)
  with eq show ?thesis by (simp add: pair_state_def)
qed

end
