(* ===== verification/Balancers.thy ===== *)
theory Balancers
  imports Proxy
begin

text \<open>
  The four balancers the configuration can choose, as the handler sees them: a selector of
  \<open>internal/balancer\<close> behind the adapter \<open>Rotate\<close> or \<open>ByClientIP\<close> of proxy.go.  The environment
  holds what the selectors keep between calls: the round-robin counter and the random
  generator.  The locale \<open>pool_balancer\<close> states what the failover loop relies on; each balancer
  interprets it through the contract of its selector, and the loop's behaviour with a working
  and with an empty pool is proved once.
\<close>

section \<open>The environment of the selectors\<close>

record 'x balancer_env =
  current :: u32
  rng :: "nat \<Rightarrow> u64 \<Rightarrow> u64" \<comment> \<open>the numbers the generator will draw\<close>
  drawn :: nat
  outside :: 'x

definition RoundRobin_get :: "world \<Rightarrow> 'x balancer_env \<Rightarrow> 'x balancer_env \<times> (sel_error + ptr) go" where
  "RoundRobin_get w e =
     (case RoundRobin_GetServer (current e) w of (c', r) \<Rightarrow> (e\<lparr>current := c'\<rparr>, Ret r))"

definition Random_get :: "world \<Rightarrow> 'x balancer_env \<Rightarrow> 'x balancer_env \<times> (sel_error + ptr) go" where
  "Random_get w e =
     (if ListHealthyBackends w = [] then e else e\<lparr>drawn := Suc (drawn e)\<rparr>,
      Random_GetServer (rng e (drawn e)) w)"

definition LeastConnections_get :: "world \<Rightarrow> 'e \<Rightarrow> 'e \<times> (sel_error + ptr) go" where
  "LeastConnections_get w e = (e, LeastConnections_GetServer w)"

definition Hash_get_for_key :: "string \<Rightarrow> world \<Rightarrow> 'e \<Rightarrow> 'e \<times> (sel_error + ptr) go" where
  "Hash_get_for_key key w e = (e, Hash_GetServerForKey key w)"

lemma rewind_body_ok:
  assumes "\<And>err. GetBody r \<noteq> Some (Inl err)"
  shows "rewind_body r \<noteq> Inl err"
proof
  assume "rewind_body r = Inl err"
  then have "GetBody r = Some (Inl err)"
    by (cases "GetBody r"; cases "the (GetBody r)") (simp_all add: rewind_body_def)
  with assms show False by blast
qed

section \<open>What the failover loop relies on\<close>

locale pool_balancer =
  fixes ok :: "world \<Rightarrow> bool"
    and adm :: "'e \<Rightarrow> world \<Rightarrow> bool"
    and sel :: "'e balancer"
  assumes pick_none: "ok w \<Longrightarrow> ListHealthyBackends w = [] \<Longrightarrow> snd (sel r w e) = Ret (Inl ErrNoBackends)"
    and pick_some: "ok w \<Longrightarrow> adm e w \<Longrightarrow> ListHealthyBackends w \<noteq> [] \<Longrightarrow>
      \<exists>p\<in>set (ListHealthyBackends w). snd (sel r w e) = Ret (Inr p)"
begin

text \<open>With no healthy backend the client gets the 503 for it and nothing is tried.\<close>

lemma serve_empty_pool:
  assumes "ok (pool s)" and "ListHealthyBackends (pool s) = []" and "\<not> cancelled (env s)"
    and "0 \<le> maxRetriesFor h r" and "\<And>err. GetBody r \<noteq> Some (Inl err)"
    and "serve_run h sel rt cancelled 0 r s s' res"
  shows "res = Ret (Replied no_backends_reply) \<and> history s' = history s \<and> pool s' = pool s"
proof -
  have none: "snd (sel r' (pool s) (env s)) = Ret (Inl ErrNoBackends)" for r'
    using pick_none assms(1,2) by blast
  have pick: "p = Ret (Inl ErrNoBackends)" if "sel r' (pool s) (env s) = (e1, p)" for r' e1 p
    using none [of r'] that by simp
  from assms(6) show ?thesis
  proof (cases rule: serve_run.cases)
    case (no_backend r1 e1 err)
    then show ?thesis by simp
  next
    case (sel_panic r1 e1 p)
    from pick [OF sel_panic(6)] show ?thesis by simp
  next
    case (attempt_panic r1 e1 target p)
    from pick [OF attempt_panic(5)] show ?thesis by simp
  next
    case (served r1 e1 target resp)
    from pick [OF served(5)] show ?thesis by simp
  next
    case (failover r1 e1 target s2)
    from pick [OF failover(4)] show ?thesis by simp
  qed (use assms(3,4) rewind_body_ok [OF assms(5)] in simp_all)
qed

text \<open>With a healthy backend the first attempt is made, on one of them.\<close>

lemma serve_first_attempt:
  assumes "ok (pool s)" and "adm (env s) (pool s)" and "ListHealthyBackends (pool s) \<noteq> []"
    and "\<not> cancelled (env s)" and "0 \<le> maxRetriesFor h r" and "\<And>err. GetBody r \<noteq> Some (Inl err)"
    and "\<And>p. p \<in> set (ListHealthyBackends (pool s)) \<Longrightarrow> p \<noteq> 0 \<and> URL (cells (pool s) p) \<noteq> None"
    and "serve_run h sel rt cancelled 0 r s s' res"
  shows "\<exists>a new. history s' = history s @ a # new \<and> att_target a \<in> set (ListHealthyBackends (pool s))"
proof -
  have pick: "\<exists>p\<in>set (ListHealthyBackends (pool s)). picked = Ret (Inr p)"
    if "sel r' (pool s) (env s) = (e1, picked)" for r' e1 picked
    using pick_some [OF assms(1-3), of r'] that by simp
  have once: "\<exists>a. history s2 = history s @ [a] \<and> att_target a = target"
    if "target \<in> set (ListHealthyBackends (pool s))"
      "proxyOnce h rt r' target (s\<lparr>env := e1\<rparr>) = (s2, out)" for r' target e1 s2 out
    using that(2) assms(7) [OF that(1)] by (cases rule: proxyOnce_cases) auto
  from assms(8) show ?thesis
  proof (cases rule: serve_run.cases)
    case (failover r1 e1 target s2)
    from pick [OF failover(4)] have t: "target \<in> set (ListHealthyBackends (pool s))" by auto
    from once [OF t failover(5)] serve_run_explained [OF failover(6)] t show ?thesis by fastforce
  next
    case (served r1 e1 target resp)
    from pick [OF served(5)] have t: "target \<in> set (ListHealthyBackends (pool s))" by auto
    from once [OF t served(6)] t show ?thesis by fastforce
  next
    case (attempt_panic r1 e1 target p)
    from pick [OF attempt_panic(5)] have t: "target \<in> set (ListHealthyBackends (pool s))" by auto
    from once [OF t attempt_panic(6)] t show ?thesis by fastforce
  next
    case (sel_panic r1 e1 p)
    from pick [OF sel_panic(6)] show ?thesis by auto
  next
    case (no_backend r1 e1 err)
    from pick [OF no_backend(6)] show ?thesis by auto
  qed (use assms(4,5) rewind_body_ok [OF assms(6)] in simp_all)
qed

end

section \<open>The configured balancers keep the contract\<close>

text \<open>The draws that are left lie below the number they are drawn for.\<close>

definition rng_ok :: "'x balancer_env \<Rightarrow> world \<Rightarrow> bool" where
  "rng_ok e w \<longleftrightarrow> draw_ok (rng e (drawn e))"

interpretation rr_balancer: pool_balancer rr_ok "\<lambda>e w. no_wrap (current e) w" "Rotate RoundRobin_get"
proof unfold_locales
  fix w :: world and e :: "'x balancer_env" and r :: request
  show "snd (Rotate RoundRobin_get r w e) = Ret (Inl ErrNoBackends)"
    if "rr_ok w" "ListHealthyBackends w = []"
    using rrs.get_none [OF that, of "current e"]
    by (simp add: Rotate_def RoundRobin_get_def split_beta)
  show "\<exists>p\<in>set (ListHealthyBackends w). snd (Rotate RoundRobin_get r w e) = Ret (Inr p)"
    if "rr_ok w" "no_wrap (current e) w" "ListHealthyBackends w \<noteq> []"
    using rrs.get_some [OF that] by (simp add: Rotate_def RoundRobin_get_def split_beta)
qed

interpretation rnd_balancer: pool_balancer sel_ok rng_ok "Rotate Random_get"
  using rnd.get_none rnd.get_some
  by unfold_locales (simp_all add: Rotate_def Random_get_def rng_ok_def)

interpretation lcs_balancer: pool_balancer "\<lambda>_. True" "\<lambda>_ _. True" "Rotate LeastConnections_get"
  using lcs.get_none lcs.get_some by unfold_locales (simp_all add: Rotate_def LeastConnections_get_def)

interpretation hsh_balancer: pool_balancer sel_ok "\<lambda>_ _. True" "ByClientIP Hash_get_for_key t" for t
  using hsh.get_none hsh.get_some by unfold_locales (simp_all add: ByClientIP_def Hash_get_for_key_def)

end
