(* ===== verification/Failover.thy ===== *)
theory Failover
  imports Balancers
begin

text \<open>
  What the failover loop achieves together with each kind of selector (proxy.go with
  \<open>internal/balancer\<close>): round robin moves on to the next healthy backend with every attempt, so
  enough retries reach a backend that answers; hash routing and least connections choose from
  state that a failed attempt has left as it was, so every retry goes to the same backend.
\<close>

section \<open>Requests the handler can replay\<close>

definition readable :: "request \<Rightarrow> bool" where
  "readable r \<longleftrightarrow> (case Body r of None \<Rightarrow> GetBody r = None | Some rd \<Rightarrow> \<exists>body. ReadAll rd = Inr body)"

definition printable_upgrade :: "request \<Rightarrow> bool" where
  "printable_upgrade r \<longleftrightarrow> list_all (code_in 32 126) (upgradeType (Header r))"

definition rewindable :: "request \<Rightarrow> bool" where
  "rewindable r \<longleftrightarrow> (\<forall>err. GetBody r \<noteq> Some (Inl err))"

lemma rewindable_consume: "rewind_body r = Inr r1 \<Longrightarrow> rewindable r \<Longrightarrow> rewindable (consume_body r1)"
  by (simp add: rewindable_def)

lemma rewindable_ok: "rewindable r \<Longrightarrow> rewind_body r \<noteq> Inl err"
  by (rule rewind_body_ok) (simp add: rewindable_def)

text \<open>The run behind a readable request.\<close>

lemma ServeHTTP_readable:
  assumes "ServeHTTP h sel rt cancelled r s = (s', res)" and "readable r"
  obtains r' where "serve_run h sel rt cancelled 0 r' s s' res" "rewindable r'"
    "Method r' = Method r" "Header r' = Header r" "RemoteAddr r' = RemoteAddr r"
  using assms(1)
proof (cases rule: ServeHTTP_run)
  case (unread err)
  with assms(2) show ?thesis by (auto simp: readable_def)
next
  case no_body
  with assms(2) show ?thesis by (intro that [of r]) (simp_all add: readable_def rewindable_def)
next
  case (body b)
  then show ?thesis
    by (intro that [of "(consume_body r)\<lparr>GetBody := Some (Inr b)\<rparr>"]) (simp_all add: rewindable_def)
qed

text \<open>A network during whose round trips nothing else happens to the pool.\<close>

definition quiet :: "'e round_trip \<Rightarrow> bool" where
  "quiet rt \<longleftrightarrow> (\<forall>p out w e. fst (fst (rt p out (w, e))) = w)"

lemma quiet_pool:
  assumes "quiet rt" and "proxyOnce h rt r1 target s = (s2, res)"
  shows "pool s2 = pool s"
  using assms(2)
proof (cases rule: proxyOnce_cases)
  case (sent u out w' outcome)
  from assms(1) sent(4) have "w' = add_conns target 1 (pool s)" unfolding quiet_def by (metis fst_conv)
  with sent(5) show ?thesis by (simp add: add_conns_cancel)
qed (auto simp: add_conns_cancel)

section \<open>Round robin moves on\<close>

lemma rr_pick_here:
  assumes "up_at w s" and "listed w \<noteq> []"
  shows "rr_pick w s = Some (s mod length (listed w))"
proof -
  from assms(2) have "[0..<length (listed w)] = 0 # [1..<length (listed w)]"
    by (simp add: upt_conv_Cons)
  with assms(1) show ?thesis by (simp add: rr_pick_def)
qed

text \<open>One call, away from the wrap, on a pool with a healthy backend.\<close>

lemma RoundRobin_get_pick:
  assumes "rr_ok w" and "no_wrap (current e) w" and "listed w \<noteq> []" and "rr_pick w (unat (current e)) = Some k"
  shows "RoundRobin_get w e = (e\<lparr>current := current e + 1\<rparr>, Ret (Inr (listed w ! k)))"
  using RoundRobin_pick [OF assms(1-3)] assms(4) by (simp add: RoundRobin_get_def)

lemma RoundRobin_get_returns:
  assumes "rr_ok w" and "no_wrap (current e) w" and "p \<in> set (ListHealthyBackends w)"
  obtains q where "RoundRobin_get w e = (e\<lparr>current := current e + 1\<rparr>, Ret (Inr q))"
    "q \<in> set (ListHealthyBackends w)"
proof -
  from assms(3) have ne: "ListHealthyBackends w \<noteq> []" "listed w \<noteq> []"
    by (force simp: ListHealthyBackends_filter filter_empty_conv)+
  from RoundRobin_complete [OF assms(1,2) ne(1)] obtain q where q: "snd (RoundRobin_GetServer (current e) w) = Inr q" ..
  with RoundRobin_nonempty [OF assms(1) ne(2)] RoundRobin_sound [OF q] show ?thesis
    by (intro that [of q]) (simp_all add: RoundRobin_get_def)
qed

text \<open>
  The situation of one iteration: the counter is \<open>d\<close> steps before position \<open>j\<close>, and that many
  attempts are left.
\<close>

definition rr_ahead :: "handler \<Rightarrow> world \<Rightarrow> nat \<Rightarrow> nat \<Rightarrow> int \<Rightarrow> request \<Rightarrow> 'x balancer_env proxy_state \<Rightarrow> bool" where
  "rr_ahead h w j d att r s \<longleftrightarrow> pool s = w \<and> rewindable r \<and> printable_upgrade r \<and>
     (unat (current (env s)) + d) mod length (listed w) = j \<and> att + int d \<le> maxRetriesFor h r \<and>
     unat (current (env s)) + d + length (listed w) \<le> 2 ^ 32"

lemma rr_ahead_no_wrap: "rr_ahead h w j d att r s \<Longrightarrow> no_wrap (current (env s)) w"
  by (simp add: rr_ahead_def no_wrap_def)

lemma rr_ahead_next:
  assumes "rr_ahead h w j (Suc d) att r s" and "rewind_body r = Inr r1"
    and "pool s2 = w" and "current (env s2) = current (env s) + 1" and "listed w \<noteq> []"
  shows "rr_ahead h w j d (att + 1) (consume_body r1) s2"
proof -
  from assms(5) have "0 < length (listed w)" by simp
  moreover from assms(1) have "unat (current (env s)) + Suc d + length (listed w) \<le> 2 ^ 32"
    by (simp only: rr_ahead_def)
  ultimately have "unat (current (env s)) + 1 < 2 ^ 32" by linarith
  then have u: "unat (current (env s) + 1) = unat (current (env s)) + 1"
    by (simp add: unat_word_ariths)
  have "maxRetriesFor h (consume_body r1) = maxRetriesFor h r"
    by (rule maxRetriesFor_cong) (simp add: assms(2))
  with assms rewindable_consume [OF assms(2)] u show ?thesis
    by (simp add: rr_ahead_def printable_upgrade_def)
qed

text \<open>Backends that answer, and networks that neither abort a copy nor touch the counter.\<close>

definition answers :: "'e round_trip \<Rightarrow> ptr \<Rightarrow> bool" where
  "answers rt p \<longleftrightarrow> (\<forall>out we. \<exists>resp. snd (rt p out we) = Answered resp)"

definition no_aborts :: "'e round_trip \<Rightarrow> bool" where
  "no_aborts rt \<longleftrightarrow> (\<forall>p out we resp. snd (rt p out we) \<noteq> CopyAborted resp)"

definition keeps_counter :: "'x balancer_env round_trip \<Rightarrow> bool" where
  "keeps_counter rt \<longleftrightarrow> (\<forall>p out w e. current (snd (fst (rt p out (w, e)))) = current e)"

definition sendable :: "world \<Rightarrow> bool" where
  "sendable w \<longleftrightarrow> (\<forall>p\<in>set (listed w). p \<noteq> 0 \<and> URL (cells w p) \<noteq> None)"

definition answered :: "'e proxy_state \<Rightarrow> reply go \<Rightarrow> bool" where
  "answered s res \<longleftrightarrow> (\<exists>resp. history s \<noteq> [] \<and> att_outcome (last (history s)) = Answered resp \<and>
     res = Ret (Replied (clean_response resp)))"

lemma sendable_member:
  "sendable w \<Longrightarrow> p \<in> set (ListHealthyBackends w) \<Longrightarrow> p \<noteq> 0 \<and> URL (cells w p) \<noteq> None"
  by (auto simp: sendable_def ListHealthyBackends_filter)

lemma reg_ok_sendable: "reg_ok w \<Longrightarrow> sendable w"
  by (auto simp: reg_ok_def sendable_def abs_reg_def dest: mem_ok_listed(5))

lemma proxyOnce_no_abort:
  assumes "proxyOnce h rt r target s = (s2, res)" and "no_aborts rt"
    and "target \<noteq> 0 \<and> URL (cells (pool s) target) \<noteq> None" and "printable_upgrade r"
  shows "res = Ret None \<and> \<not> answers rt target \<or>
    (\<exists>resp. res = Ret (Some (clean_response resp)) \<and> history s2 \<noteq> [] \<and>
       att_outcome (last (history s2)) = Answered resp)"
  using assms(1)
proof (cases rule: proxyOnce_cases)
  case (sent u out w' outcome)
  have "snd (rt target out (add_conns target 1 (pool s), env s)) = outcome" using sent(4) by simp
  then have "outcome \<noteq> CopyAborted resp" and "answers rt target \<Longrightarrow> outcome \<noteq> Unreachable" for resp
    using assms(2) unfolding no_aborts_def answers_def
     by (metis, metis upstream.distinct(1))
  with sent(6,7) show ?thesis by (cases outcome) auto
qed (use assms(3,4) in \<open>auto simp: printable_upgrade_def\<close>)

lemma proxyOnce_counter:
  assumes "proxyOnce h rt r target s = (s2, res)" and "keeps_counter rt"
  shows "current (env s2) = current (env s)"
  using assms(1)
proof (cases rule: proxyOnce_cases)
  case (sent u out w' outcome)
  with assms(2) show ?thesis unfolding keeps_counter_def by (metis fst_conv snd_conv)
qed auto

text \<open>What stays the same during the request: the pool, in which position \<open>j\<close> is up and answers.\<close>

definition rr_setting :: "'x balancer_env round_trip \<Rightarrow> world \<Rightarrow> nat \<Rightarrow> bool" where
  "rr_setting rt w j \<longleftrightarrow> rr_ok w \<and> sendable w \<and> j < length (listed w) \<and>
     Healthy (cells w (listed w ! j)) \<and> answers rt (listed w ! j) \<and> no_aborts rt \<and> quiet rt \<and> keeps_counter rt"

lemma rr_setting_up:
  "rr_setting rt w j \<Longrightarrow> listed w ! j \<in> set (ListHealthyBackends w)"
  "rr_setting rt w j \<Longrightarrow> listed w \<noteq> []"
  by (auto simp: rr_setting_def ListHealthyBackends_filter)

lemma printable_rewind: "rewind_body r = Inr r1 \<Longrightarrow> printable_upgrade r1 = printable_upgrade r"
  by (simp add: printable_upgrade_def)

lemma rr_setting_pick:
  assumes "rr_setting rt w j" and "rr_ahead h w j d att r s"
    and "Rotate RoundRobin_get r1 (pool s) (env s) = (e1, picked)"
  obtains q where "picked = Ret (Inr q)" "current e1 = current (env s) + 1"
    "q \<in> set (ListHealthyBackends w)" "d = 0 \<Longrightarrow> q = listed w ! j"
proof -
  have ok: "rr_ok w" using assms(1) by (simp add: rr_setting_def)
  have w: "pool s = w" using assms(2) by (simp add: rr_ahead_def)
  note nw = rr_ahead_no_wrap [OF assms(2)] and up = rr_setting_up [OF assms(1)]
  from RoundRobin_get_returns [OF ok nw up(1)] obtain q where
    q: "RoundRobin_get w (env s) = ((env s)\<lparr>current := current (env s) + 1\<rparr>, Ret (Inr q))"
    "q \<in> set (ListHealthyBackends w)" .
  have "q = listed w ! j" if "d = 0"
  proof -
    from assms(2) that have at: "unat (current (env s)) mod length (listed w) = j"
      by (simp add: rr_ahead_def)
    with assms(1) have "up_at w (unat (current (env s)))" by (simp add: up_at_def rr_setting_def)
    from RoundRobin_get_pick [OF ok nw up(2) rr_pick_here [OF this up(2)]] q(1) at show ?thesis by simp
  qed
  with q w assms(3) show ?thesis by (intro that [of q]) (auto simp: Rotate_def)
qed

lemma rr_setting_attempt:
  assumes "rr_setting rt w j" and "rr_ahead h w j d att r s" and "rewind_body r = Inr r1"
    and "Rotate RoundRobin_get r1 (pool s) (env s) = (e1, Ret (Inr q))"
    and "proxyOnce h rt r1 q (s\<lparr>env := e1\<rparr>) = (s2, out)"
  shows "out = Ret None \<and> 0 < d \<and> rr_ahead h w j (d - 1) (att + 1) (consume_body r1) s2 \<or>
    (\<exists>resp. out = Ret (Some resp) \<and> answered s2 (Ret (Replied resp)))"
proof -
  from rr_setting_pick [OF assms(1,2,4)] have c1: "current e1 = current (env s) + 1"
    and q: "q \<in> set (ListHealthyBackends w)" and hit: "d = 0 \<Longrightarrow> q = listed w ! j" by auto
  from assms(1) have set: "no_aborts rt" "sendable w" "quiet rt" "keeps_counter rt" "answers rt (listed w ! j)"
    by (simp_all add: rr_setting_def)
  from assms(2) have w: "pool s = w" and pr: "printable_upgrade r1"
    by (simp_all add: rr_ahead_def printable_rewind [OF assms(3)])
  have "q \<noteq> 0 \<and> URL (cells (pool (s\<lparr>env := e1\<rparr>)) q) \<noteq> None"
    using sendable_member [OF set(2) q] w by simp
  from proxyOnce_no_abort [OF assms(5) set(1) this pr] show ?thesis
  proof
    assume failed: "out = Ret None \<and> \<not> answers rt q"
    with hit set(5) obtain k where k: "d = Suc k" by (cases d) auto
    have "pool s2 = w" "current (env s2) = current (env s) + 1"
      using quiet_pool [OF set(3) assms(5)] proxyOnce_counter [OF assms(5) set(4)] w c1 by simp_all
    from rr_ahead_next [OF assms(2) [unfolded k] assms(3) this rr_setting_up(2) [OF assms(1)]] failed k
    show ?thesis by simp
  qed (auto simp: answered_def)
qed

lemma rr_serve_reaches:
  assumes "serve_run h (Rotate RoundRobin_get) rt (\<lambda>_. False) att r s s' res"
    and "rr_ahead h w j d att r s" and "rr_setting rt w j"
  shows "answered s' res"
  using assms(1,2)
proof (induction arbitrary: d rule: serve_run.induct)
  case (exhausted att r s)
  then show ?case by (simp add: rr_ahead_def)
next
  case (rewind_failed att r s err)
  then show ?case using rewindable_ok by (auto simp: rr_ahead_def)
next
  case (sel_panic att r s r1 e1 p)
  from rr_setting_pick [OF assms(3) sel_panic.prems sel_panic(4)] show ?case by auto
next
  case (no_backend att r s r1 e1 err)
  from rr_setting_pick [OF assms(3) no_backend.prems no_backend(4)] show ?case by auto
next
  case (attempt_panic att r s r1 e1 target s2 p)
  from rr_setting_attempt [OF assms(3) attempt_panic.prems attempt_panic(3-5)] show ?case by auto
next
  case (served att r s r1 e1 target s2 resp)
  from rr_setting_attempt [OF assms(3) served.prems served(3-5)] show ?case by auto
next
  case (failover att r s r1 e1 target s2 s' res)
  from rr_setting_attempt [OF assms(3) failover.prems failover(3-5)] failover(7) show ?case by blast
qed simp

section \<open>Selectors that do not move on\<close>

lemma ClientIP_cong:
  assumes "RemoteAddr r' = RemoteAddr r" and "Header r' = Header r"
  shows "ClientIP t r' = ClientIP t r"
proof -
  from assms have "peerIP r' = peerIP r" "forwarded_hops r' = forwarded_hops r"
    by (simp_all add: peerIP_def forwarded_hops_def)
  with assms(1) show ?thesis by (simp add: ClientIP_def Let_def)
qed

text \<open>A balancer that chooses \<open>p\<close> for this request as long as the pool is \<open>w\<close>.\<close>

definition fixed_on :: "'e balancer \<Rightarrow> request \<Rightarrow> world \<Rightarrow> ptr \<Rightarrow> bool" where
  "fixed_on sel r w p \<longleftrightarrow> (\<forall>r' e. RemoteAddr r' = RemoteAddr r \<longrightarrow> Header r' = Header r \<longrightarrow>
     sel r' w e = (e, Ret (Inr p)))"

lemma stateless_fixed:
  assumes "sel = Rotate LeastConnections_get \<or> sel = ByClientIP Hash_get_for_key t"
    and "snd (sel r w e) = Ret (Inr p)"
  shows "fixed_on sel r w p"
  unfolding fixed_on_def
proof (intro allI impI)
  fix r' :: request and e' :: 'a
  assume "RemoteAddr r' = RemoteAddr r" "Header r' = Header r"
  then have "ClientIP t r' = ClientIP t r" by (rule ClientIP_cong)
  with assms show "sel r' w e' = (e', Ret (Inr p))"
    by (auto simp: Rotate_def ByClientIP_def LeastConnections_get_def Hash_get_for_key_def)
qed

definition unreachable :: "'e round_trip \<Rightarrow> ptr \<Rightarrow> bool" where
  "unreachable rt p \<longleftrightarrow> (\<forall>out we. snd (rt p out we) = Unreachable)"

lemma proxyOnce_unreachable:
  assumes "proxyOnce h rt r p s = (s2, res)" and "unreachable rt p"
    and "p \<noteq> 0 \<and> URL (cells (pool s) p) \<noteq> None"
  shows "res = Ret None \<and> (\<exists>a. history s2 = history s @ [a] \<and> att_target a = p)"
  using assms(1)
proof (cases rule: proxyOnce_cases)
  case (sent u out w' outcome)
  with assms(2) have "outcome = Unreachable" unfolding unreachable_def by (metis snd_conv)
  with sent(6,7) show ?thesis by simp
qed (use assms(3) in auto)

lemma serve_run_stuck:
  assumes "serve_run h sel rt (\<lambda>_. False) att r s s' res"
    and "fixed_on sel r w p" and "unreachable rt p" and "quiet rt"
    and "p \<noteq> 0 \<and> URL (cells w p) \<noteq> None" and "pool s = w" and "rewindable r" and "att \<le> maxRetriesFor h r + 1"
  shows "\<exists>new. history s' = history s @ new \<and> list_all (\<lambda>a. att_target a = p) new \<and>
    length new = nat (maxRetriesFor h r + 1 - att) \<and> res = Ret (Replied exhausted_reply)"
  using assms(1,2,6-)
proof (induction rule: serve_run.induct)
  case (rewind_failed att r s err)
  then show ?case using rewindable_ok by blast
next
  case (sel_panic att r s r1 e1 q)
  then have "sel r1 w (env s) = (env s, Ret (Inr p))" by (simp add: fixed_on_def)
  with sel_panic show ?case by simp
next
  case (no_backend att r s r1 e1 err)
  then have "sel r1 w (env s) = (env s, Ret (Inr p))" by (simp add: fixed_on_def)
  with no_backend show ?case by simp
next
  case (attempt_panic att r s r1 e1 target s2 q)
  then have "sel r1 w (env s) = (env s, Ret (Inr p))" by (simp add: fixed_on_def)
  with attempt_panic proxyOnce_unreachable [OF attempt_panic(5)] assms(3,5) show ?case by auto
next
  case (served att r s r1 e1 target s2 resp)
  then have "sel r1 w (env s) = (env s, Ret (Inr p))" by (simp add: fixed_on_def)
  with served proxyOnce_unreachable [OF served(5)] assms(3,5) show ?case by auto
next
  case (failover att r s r1 e1 target s2 s' res)
  then have sel: "sel r1 w (env s) = (env s, Ret (Inr p))" by (simp add: fixed_on_def)
  with failover proxyOnce_unreachable [OF failover(5)] assms(3,5) obtain a
    where a: "history s2 = history s @ [a]" "att_target a = p" by auto
  have m: "maxRetriesFor h (consume_body r1) = maxRetriesFor h r"
    by (rule maxRetriesFor_cong) (simp add: failover(3))
  have "fixed_on sel (consume_body r1) w p"
    using failover.prems(1) failover(3) by (simp add: fixed_on_def)
  with failover.IH quiet_pool [OF assms(4) failover(5)] failover.prems rewindable_consume [OF failover(3)]
    failover(1) obtain new where "history s' = history s2 @ new" "list_all (\<lambda>a. att_target a = p) new"
      "length new = nat (maxRetriesFor h r + 1 - (att + 1))" "res = Ret (Replied exhausted_reply)"
    unfolding m by auto
  with a failover(1) show ?case by (intro exI [of _ "a # new"]) auto
qed auto

section \<open>Properties\<close>

text \<open>
  C12. Round robin fails over: if some healthy backend answers and there are at least as many
  attempts as registered backends, the client gets a backend's response and no 503, whichever
  other backends are unreachable, for every request that may be retried (readable body; the
  counter is not about to wrap; nothing else changes the pool meanwhile).
\<close>

theorem round_robin_failover_reaches:
  assumes "rr_setting rt (pool s) j"
    and "unat (current (env s)) + 2 * length (listed (pool s)) \<le> 2 ^ 32"
    and "int (length (listed (pool s))) \<le> maxRetriesFor h r + 1"
    and "readable r" and "printable_upgrade r"
  shows "case ServeHTTP h (Rotate RoundRobin_get) rt (\<lambda>_. False) r s of (s', res) \<Rightarrow> answered s' res"
proof -
  obtain s' res where eq: "ServeHTTP h (Rotate RoundRobin_get) rt (\<lambda>_. False) r s = (s', res)" by fastforce
  from ServeHTTP_readable [OF eq assms(4)] obtain r' where
    run: "serve_run h (Rotate RoundRobin_get) rt (\<lambda>_. False) 0 r' s s' res" and r': "rewindable r'"
      "Method r' = Method r" "Header r' = Header r" .
  from assms(1) have "j < length (listed (pool s))" by (simp add: rr_setting_def)
  from mod_shift_surj [OF this] obtain d where d: "d < length (listed (pool s))"
    "(unat (current (env s)) + d) mod length (listed (pool s)) = j" by blast
  have "rr_ahead h (pool s) j d 0 r' s"
    using r' d assms(2,3,5) maxRetriesFor_cong [OF r'(2)]
    by (auto simp: rr_ahead_def printable_upgrade_def)
  from rr_serve_reaches [OF run this assms(1)] eq show ?thesis by simp
qed

lemma round_robin_failover_reaches_witness:
  "case ServeHTTP sample_handler (Rotate RoundRobin_get) sample_network (\<lambda>_. False) sample_put
      (pair_state \<lparr>current = 0, rng = (\<lambda>_ _. 0), drawn = 0, outside = ()\<rparr>) of (s', res) \<Rightarrow> answered s' res"
proof (rule round_robin_failover_reaches [where j = 1])
  have "sendable pair_world"
    by (auto simp: sendable_def pair_world_facts healthy_backend_def)
  then show "rr_setting sample_network (pool (pair_state \<lparr>current = 0, rng = (\<lambda>_ _. 0), drawn = 0, outside = ()\<rparr>)) 1"
    using pair_rr_ok
    by (auto simp: rr_setting_def pair_state_def pair_world_facts healthy_backend_def Healthy_def
        answers_def no_aborts_def quiet_def keeps_counter_def sample_network_def)
qed (simp_all add: pair_state_def pair_world_facts sample_handler_def NewHandler_def maxRetriesFor_def
    sample_put_def readable_def printable_upgrade_def upgradeType_def contains_token_def
    header_Values_def sample_request_def)

text \<open>
  C33. Hash routing and least connections do not fail over: when the backend they choose is
  unreachable, all \<open>MaxRetries + 1\<close> attempts go to it and the client gets a 503, however many
  other healthy backends would answer (until the prober notices or other requests change the
  counts).
\<close>

theorem stateless_selection_stuck:
  assumes "sel = Rotate LeastConnections_get \<or> sel = ByClientIP Hash_get_for_key t"
    and "snd (sel r (pool s) (env s)) = Ret (Inr p)"
    and "p \<noteq> 0" and "URL (cells (pool s) p) \<noteq> None" and "unreachable rt p" and "quiet rt"
    and "readable r" and "0 \<le> maxRetriesFor h r"
  shows "case ServeHTTP h sel rt (\<lambda>_. False) r s of (s', res) \<Rightarrow>
    \<exists>new. history s' = history s @ new \<and> list_all (\<lambda>a. att_target a = p) new \<and>
      length new = nat (maxRetriesFor h r + 1) \<and> res = Ret (Replied exhausted_reply)"
proof -
  obtain s' res where eq: "ServeHTTP h sel rt (\<lambda>_. False) r s = (s', res)" by fastforce
  from ServeHTTP_readable [OF eq assms(7)] obtain r' where
    run: "serve_run h sel rt (\<lambda>_. False) 0 r' s s' res" and r': "rewindable r'"
      "Method r' = Method r" "Header r' = Header r" "RemoteAddr r' = RemoteAddr r" .
  from stateless_fixed [OF assms(1,2)] r' have "fixed_on sel r' (pool s) p" by (simp add: fixed_on_def)
  from serve_run_stuck [OF run this assms(5,6) _ refl r'(1)] assms(3,4,8) eq maxRetriesFor_cong [OF r'(2)]
  show ?thesis by simp
qed

definition only_first_answers :: "'e round_trip" where
  "only_first_answers = (\<lambda>p out (w, e). ((w, e), if p = 1 then Answered sample_answer else Unreachable))"

lemma stateless_selection_stuck_witness:
  "snd (ServeHTTP sample_handler (Rotate LeastConnections_get) only_first_answers (\<lambda>_. False) sample_put
      (pair_state ())) = Ret (Replied exhausted_reply) \<and> (1::ptr) \<in> set (ListHealthyBackends pair_world)"
proof -
  have lc: "LeastConnections_GetServer pair_world = Ret (Inr 2)"
    by (simp add: LeastConnections_GetServer_def pair_world_facts MinFunc_def load_cmp_def cmp_Compare_def
        healthy_backend_def)
  have "case ServeHTTP sample_handler (Rotate LeastConnections_get) only_first_answers (\<lambda>_. False) sample_put
      (pair_state ()) of (s', res) \<Rightarrow> \<exists>new. history s' = history (pair_state ()) @ new \<and>
      list_all (\<lambda>a. att_target a = 2) new \<and> length new = nat (maxRetriesFor sample_handler sample_put + 1) \<and>
      res = Ret (Replied exhausted_reply)"
    by (rule stateless_selection_stuck)
      (simp_all add: Rotate_def LeastConnections_get_def pair_state_def lc pair_world_facts
        healthy_backend_def unreachable_def quiet_def only_first_answers_def split_beta readable_def
        sample_put_def sample_handler_def NewHandler_def maxRetriesFor_def)
  then show ?thesis by (auto simp: pair_world_facts split_beta)
qed

end
