(* ===== verification/GoPath.thy ===== *)
theory GoPath
  imports Netip
begin

text \<open>Slash-separated paths: the cleaning of rooted paths that \<open>URL.JoinPath\<close> and the mux do.\<close>

text \<open>\<open>path.Clean\<close> of a rooted path: the segments that remain.\<close>

definition clean_step :: "string list \<Rightarrow> string \<Rightarrow> string list" where
  "clean_step acc seg =
     (if seg = [] \<or> seg = ''.'' then acc else if seg = ''..'' then butlast acc else acc @ [seg])"

definition clean_rooted :: "string \<Rightarrow> string" where
  "clean_rooted s = CHR ''/'' # join_with ''/'' (foldl clean_step [] (split_on CHR ''/'' s))"

definition ends_in_slash :: "string \<Rightarrow> bool" where
  "ends_in_slash s \<longleftrightarrow> s \<noteq> [] \<and> last s = CHR ''/''"

text \<open>\<open>http.cleanPath\<close>: the canonical form of a request path, its trailing slash kept.\<close>

definition cleanPath :: "string \<Rightarrow> string" where
  "cleanPath p =
     (if p = [] then ''/''
      else
        (let rooted = (if hd p = CHR ''/'' then p else CHR ''/'' # p); np = clean_rooted rooted
         in if ends_in_slash rooted \<and> np \<noteq> ''/'' then np @ ''/'' else np))"

end
