(* ===== verification/Prober.thy ===== *)
theory Prober
  imports GoPath Registry
begin

text \<open>
  The package \<open>internal/health\<close> (prober.go): the probe of one backend, the round over all of
  them and the thresholds that turn results into health reports.  The registry is used through
  the locale \<open>health_registry\<close> only, as in the code; the HTTP client is a parameter, \<open>http i t\<close>
  being the status the \<open>i\<close>-th probe of a round gets from target \<open>t\<close>, or \<open>None\<close> for an error or a
  timeout.  Probes of a round run in parallel and only write their own slot, so the model
  computes the slots in order; \<open>meanwhile\<close> is what happens to the registry while they run.
  Durations are integers in nanoseconds.
\<close>

section \<open>Configuration\<close>

record probe_config =
  Interval :: int
  Timeout :: int
  ProbePath :: string
  HealthyThreshold :: int
  UnhealthyThreshold :: int
  MaxConcurrent :: int

definition withDefaults :: "probe_config \<Rightarrow> probe_config" where
  "withDefaults c =
     (let c1 = (if Interval c = 0 then c\<lparr>Interval := 5 * 10 ^ 9\<rparr> else c);
          c2 = (if Timeout c1 = 0 then c1\<lparr>Timeout := 2 * 10 ^ 9\<rparr> else c1);
          c3 = (if ProbePath c2 = [] then c2\<lparr>ProbePath := ''/healthz''\<rparr> else c2);
          c4 = (if HealthyThreshold c3 = 0 then c3\<lparr>HealthyThreshold := 1\<rparr> else c3)
      in if UnhealthyThreshold c4 = 0 then c4\<lparr>UnhealthyThreshold := 3\<rparr> else c4)"

lemma withDefaults_thresholds:
  "HealthyThreshold (withDefaults c) = (if HealthyThreshold c = 0 then 1 else HealthyThreshold c)"
  "UnhealthyThreshold (withDefaults c) = (if UnhealthyThreshold c = 0 then 3 else UnhealthyThreshold c)"
  by (simp_all add: withDefaults_def Let_def)

section \<open>The target of a probe\<close>

text \<open>\<open>URL.JoinPath\<close> with one element.\<close>

definition JoinPath :: "url \<Rightarrow> string \<Rightarrow> url" where
  "JoinPath u elem =
     (let base = EscapedPath u;
          rooted = base \<noteq> [] \<and> hd base = CHR ''/'';
          cleaned = clean_rooted ((if rooted then base else CHR ''/'' # base) @
            (if elem = [] then [] else CHR ''/'' # elem));
          p = (if rooted then cleaned else tl cleaned);
          q = (if ends_in_slash elem \<and> \<not> ends_in_slash p then p @ ''/'' else p)
      in (case unescape q of
            None \<Rightarrow> u
          | Some pth \<Rightarrow> u\<lparr>url_Path := pth, url_RawPath := (if escape pth EncodePath = q then [] else q)\<rparr>))"

section \<open>Probes\<close>

definition probe :: "probe_config \<Rightarrow> (string \<Rightarrow> nat option) \<Rightarrow> backend \<Rightarrow> bool go" where
  "probe cfg http b =
     (case URL b of
        None \<Rightarrow> Panic NilDereference
      | Some u \<Rightarrow>
          Ret (case http (url_String (JoinPath u (ProbePath cfg))) of
                 None \<Rightarrow> False
               | Some status \<Rightarrow> 200 \<le> status \<and> status < 300))"

fun probe_all ::
    "probe_config \<Rightarrow> (nat \<Rightarrow> string \<Rightarrow> nat option) \<Rightarrow> nat \<Rightarrow> backend list \<Rightarrow> bool list go" where
  "probe_all cfg http i [] = Ret []"
| "probe_all cfg http i (b # bs) =
     go_bind (probe cfg (http i) b) (\<lambda>ok. go_bind (probe_all cfg http (Suc i) bs) (\<lambda>oks. Ret (ok # oks)))"

section \<open>Streaks\<close>

type_synonym streaks = "string \<rightharpoonup> int"

definition streak_of :: "streaks \<Rightarrow> string \<Rightarrow> int" where
  "streak_of st i = (case st i of None \<Rightarrow> 0 | Some s \<Rightarrow> s)"

text \<open>\<open>Prober.record\<close>: the new streak, with a report when it first reaches a threshold.\<close>

definition record_probe ::
    "(string \<Rightarrow> bool \<Rightarrow> 'w \<Rightarrow> 'w \<times> bool) \<Rightarrow> probe_config \<Rightarrow> backend \<Rightarrow> bool \<Rightarrow> bool \<Rightarrow> 'w \<times> streaks \<Rightarrow> 'w \<times> streaks" where
  "record_probe set_healthy cfg b ok initial ws =
     (let (w, st) = ws; i = InstanceID b; s = streak_of st i
      in if ok then
           (let s1 = (if s < 0 then 0 else s)
            in if s1 < HealthyThreshold cfg then
                 (let s2 = s1 + 1;
                      w' = (if s2 = HealthyThreshold cfg \<or> initial then fst (set_healthy i True w) else w)
                  in (w', st(i \<mapsto> s2)))
               else (w, st(i \<mapsto> s1)))
         else
           (let s1 = (if s > 0 then 0 else s)
            in if s1 > - UnhealthyThreshold cfg then
                 (let s2 = s1 - 1;
                      w' = (if s2 = - UnhealthyThreshold cfg then fst (set_healthy i False w) else w)
                  in (w', st(i \<mapsto> s2)))
               else (w, st(i \<mapsto> s1))))"

text \<open>\<open>Prober.probeRound\<close>.\<close>

definition probeRound ::
    "('w \<Rightarrow> backend list) \<Rightarrow> (string \<Rightarrow> bool \<Rightarrow> 'w \<Rightarrow> 'w \<times> bool) \<Rightarrow> probe_config
      \<Rightarrow> (nat \<Rightarrow> string \<Rightarrow> nat option) \<Rightarrow> ('w \<Rightarrow> 'w) \<Rightarrow> bool \<Rightarrow> 'w \<times> streaks \<Rightarrow> ('w \<times> streaks) go" where
  "probeRound list_backends set_healthy cfg http meanwhile initial ws =
     (let (w, st) = ws; backends = list_backends w; st1 = st |` (InstanceID ` set backends)
      in if backends = [] then Ret (w, st1)
         else go_bind (probe_all cfg http 0 backends) (\<lambda>results.
           Ret (fold (\<lambda>(b, ok). record_probe set_healthy cfg b ok initial) (zip backends results)
             (meanwhile w, st1))))"

text \<open>\<open>NewProber\<close>, \<open>ProbeOnce\<close> and the ticks of \<open>Run\<close>: one pair of parameters per tick.\<close>

definition NewProber :: "probe_config \<Rightarrow> probe_config \<times> streaks" where
  "NewProber cfg = (withDefaults cfg, Map.empty)"

definition ProbeOnce ::
    "('w \<Rightarrow> backend list) \<Rightarrow> (string \<Rightarrow> bool \<Rightarrow> 'w \<Rightarrow> 'w \<times> bool) \<Rightarrow> probe_config
      \<Rightarrow> (nat \<Rightarrow> string \<Rightarrow> nat option) \<Rightarrow> ('w \<Rightarrow> 'w) \<Rightarrow> 'w \<times> streaks \<Rightarrow> ('w \<times> streaks) go" where
  "ProbeOnce list_backends set_healthy cfg http meanwhile ws =
     probeRound list_backends set_healthy cfg http meanwhile True ws"

fun Run ::
    "('w \<Rightarrow> backend list) \<Rightarrow> (string \<Rightarrow> bool \<Rightarrow> 'w \<Rightarrow> 'w \<times> bool) \<Rightarrow> probe_config
      \<Rightarrow> ((nat \<Rightarrow> string \<Rightarrow> nat option) \<times> ('w \<Rightarrow> 'w)) list \<Rightarrow> 'w \<times> streaks \<Rightarrow> ('w \<times> streaks) go" where
  "Run list_backends set_healthy cfg [] ws = Ret ws"
| "Run list_backends set_healthy cfg ((http, meanwhile) # ticks) ws =
     go_bind (probeRound list_backends set_healthy cfg http meanwhile False ws)
       (Run list_backends set_healthy cfg ticks)"

section \<open>One backend, abstractly\<close>

text \<open>
  What the rounds do to one backend is an automaton over its streak and its health; its verdict
  on a result is a report or none.
\<close>

definition next_streak :: "int \<Rightarrow> int \<Rightarrow> bool \<Rightarrow> int \<Rightarrow> int" where
  "next_streak H U ok s = (if ok then min H (max s 0 + 1) else max (- U) (min s 0 - 1))"

definition verdict :: "int \<Rightarrow> int \<Rightarrow> bool \<Rightarrow> bool \<Rightarrow> int \<Rightarrow> bool option" where
  "verdict H U initial ok s =
     (if ok \<and> s < H \<and> (max s 0 + 1 = H \<or> initial) then Some True
      else if \<not> ok \<and> - U < s \<and> min s 0 - 1 = - U then Some False else None)"

definition track :: "int \<Rightarrow> int \<Rightarrow> bool \<Rightarrow> bool \<Rightarrow> int \<times> bool \<Rightarrow> int \<times> bool" where
  "track H U initial ok sh =
     (next_streak H U ok (fst sh),
      case verdict H U initial ok (fst sh) of None \<Rightarrow> snd sh | Some v \<Rightarrow> v)"

definition in_range :: "int \<Rightarrow> int \<Rightarrow> int \<Rightarrow> bool" where
  "in_range H U s \<longleftrightarrow> - U \<le> s \<and> s \<le> H"

lemma next_streak_range: "1 \<le> H \<Longrightarrow> 1 \<le> U \<Longrightarrow> in_range H U (next_streak H U ok s)"
  by (auto simp: in_range_def next_streak_def)

lemma record_probe_abs:
  assumes "1 \<le> HealthyThreshold cfg" and "1 \<le> UnhealthyThreshold cfg"
    and "in_range (HealthyThreshold cfg) (UnhealthyThreshold cfg) (streak_of st (InstanceID b))"
  shows "record_probe set_healthy cfg b ok initial (w, st) =
    (case verdict (HealthyThreshold cfg) (UnhealthyThreshold cfg) initial ok (streak_of st (InstanceID b)) of
       None \<Rightarrow> w | Some v \<Rightarrow> fst (set_healthy (InstanceID b) v w),
     st(InstanceID b \<mapsto> next_streak (HealthyThreshold cfg) (UnhealthyThreshold cfg) ok (streak_of st (InstanceID b))))"
  using assms
  by (auto simp: record_probe_def Let_def verdict_def next_streak_def in_range_def max_def min_def)

text \<open>The streak and the health the prober and the registry hold for one identifier.\<close>

definition health_of :: "backend list \<Rightarrow> string \<Rightarrow> bool" where
  "health_of bs i \<longleftrightarrow> (\<exists>b\<in>set bs. InstanceID b = i \<and> healthy b)"

lemma health_of_mark:
  "i \<in> InstanceID ` set bs \<Longrightarrow> health_of (map (mark i v) bs) j = (if j = i then v else health_of bs j)"
  by (auto simp: health_of_def)

definition tracked :: "('w \<Rightarrow> backend list) \<Rightarrow> 'w \<times> streaks \<Rightarrow> string \<Rightarrow> int \<times> bool" where
  "tracked view ws i = (streak_of (snd ws) i, health_of (view (fst ws)) i)"

definition thresholds_ok :: "probe_config \<Rightarrow> bool" where
  "thresholds_ok cfg \<longleftrightarrow> 1 \<le> HealthyThreshold cfg \<and> 1 \<le> UnhealthyThreshold cfg"

text \<open>Streaks are in range for every identifier.\<close>

definition streaks_ok :: "probe_config \<Rightarrow> streaks \<Rightarrow> bool" where
  "streaks_ok cfg st \<longleftrightarrow> (\<forall>i. in_range (HealthyThreshold cfg) (UnhealthyThreshold cfg) (streak_of st i))"

abbreviation track_with :: "probe_config \<Rightarrow> bool \<Rightarrow> bool \<Rightarrow> int \<times> bool \<Rightarrow> int \<times> bool" where
  "track_with cfg \<equiv> track (HealthyThreshold cfg) (UnhealthyThreshold cfg)"

section \<open>Rounds over any registry\<close>

definition good :: "nat option \<Rightarrow> bool" where
  "good res \<longleftrightarrow> (case res of None \<Rightarrow> False | Some status \<Rightarrow> 200 \<le> status \<and> status < 300)"

definition target_of :: "probe_config \<Rightarrow> url \<Rightarrow> string" where
  "target_of cfg u = url_String (JoinPath u (ProbePath cfg))"

text \<open>A backend with this identifier, URL and health.\<close>

definition listed_as :: "backend list \<Rightarrow> string \<Rightarrow> url \<Rightarrow> bool \<Rightarrow> bool" where
  "listed_as bs i u h \<longleftrightarrow> (\<exists>b\<in>set bs. InstanceID b = i \<and> URL b = Some u \<and> healthy b = h)"

lemma streaks_ok_restrict: "thresholds_ok cfg \<Longrightarrow> streaks_ok cfg st \<Longrightarrow> streaks_ok cfg (st |` X)"
  by (auto simp: streaks_ok_def streak_of_def restrict_map_def thresholds_ok_def in_range_def)

lemma streaks_ok_empty: "thresholds_ok cfg \<Longrightarrow> streaks_ok cfg (\<lambda>x. None)"
  by (simp add: streaks_ok_def streak_of_def thresholds_ok_def in_range_def)

text \<open>
  One tick of \<open>Run\<close> for one backend: the network answers its probe with \<open>ok\<close>, and whatever else
  happens to the registry during the probes leaves the backend as it is.
\<close>

definition tick_ok :: "('w \<Rightarrow> bool) \<Rightarrow> ('w \<Rightarrow> backend list) \<Rightarrow> probe_config \<Rightarrow> string \<Rightarrow> url
    \<Rightarrow> (nat \<Rightarrow> string \<Rightarrow> nat option) \<times> ('w \<Rightarrow> 'w) \<Rightarrow> bool \<Rightarrow> bool" where
  "tick_ok good_w view cfg i u tick ok \<longleftrightarrow> (\<forall>k. good (fst tick k (target_of cfg u)) = ok) \<and>
     (\<forall>w h. good_w w \<longrightarrow> listed_as (view w) i u h \<longrightarrow> good_w (snd tick w) \<and> listed_as (view (snd tick w)) i u h)"

text \<open>What the prober never changes of a backend: everything but its health.\<close>

definition static :: "backend \<Rightarrow> backend" where
  "static b = b\<lparr>healthy := False\<rparr>"

lemma static_mark [simp]: "static (mark i v b) = static b"
  by (simp add: static_def mark_def)

lemma static_eqD: "static b = static c \<Longrightarrow> healthy b = v \<Longrightarrow> b = c\<lparr>healthy := v\<rparr>"
  by (cases b; cases c) (simp add: static_def)

lemma static_maps:
  assumes "map static bs = map static cs"
  shows "map URL bs = map URL cs" and "map Weight bs = map Weight cs" and "map InstanceID bs = map InstanceID cs"
proof -
  have "URL = URL \<circ> static" "Weight = Weight \<circ> static" "InstanceID = InstanceID \<circ> static"
    by (simp_all add: static_def fun_eq_iff)
  with assms show "map URL bs = map URL cs" "map Weight bs = map Weight cs" "map InstanceID bs = map InstanceID cs"
    by (metis map_map)+
qed

context health_registry
begin

lemma record_probe_tracked:
  assumes "inv w" and "thresholds_ok cfg" and "streaks_ok cfg st"
    and "record_probe set_healthy cfg b ok initial (w, st) = (w', st')"
  shows "inv w'" and "map InstanceID (view w') = map InstanceID (view w)" and "streaks_ok cfg st'"
    and "InstanceID b \<in> InstanceID ` set (view w) \<Longrightarrow>
      tracked view (w', st') (InstanceID b) = track_with cfg initial ok (tracked view (w, st) (InstanceID b))"
    and "j \<noteq> InstanceID b \<Longrightarrow> tracked view (w', st') j = tracked view (w, st) j"
    and "map static (view w') = map static (view w)" and "dom st' = insert (InstanceID b) (dom st)"
proof -
  note eq = record_probe_abs [of cfg st b set_healthy ok initial w]
  from assms(2-4) eq have w': "w' = (case verdict (HealthyThreshold cfg) (UnhealthyThreshold cfg) initial ok
        (streak_of st (InstanceID b)) of None \<Rightarrow> w | Some v \<Rightarrow> fst (set_healthy (InstanceID b) v w))"
    and st': "st' = st(InstanceID b \<mapsto>
        next_streak (HealthyThreshold cfg) (UnhealthyThreshold cfg) ok (streak_of st (InstanceID b)))"
    by (simp_all add: thresholds_ok_def streaks_ok_def)
  note sv = set_healthy_view [OF assms(1)]
  show "inv w'" using w' assms(1) set_healthy_inv by (simp split: option.splits)
  show "map InstanceID (view w') = map InstanceID (view w)"
    using w' assms(1) set_healthy_ids by (simp split: option.splits)
  show "map static (view w') = map static (view w)" using w' sv by (simp split: option.splits)
  show "dom st' = insert (InstanceID b) (dom st)" using st' by simp
  show "streaks_ok cfg st'"
    using assms(2,3) next_streak_range st' by (auto simp: streaks_ok_def streak_of_def thresholds_ok_def)
  show "tracked view (w', st') (InstanceID b) = track_with cfg initial ok (tracked view (w, st) (InstanceID b))"
    if "InstanceID b \<in> InstanceID ` set (view w)"
    using sv health_of_mark [OF that] w' st'
    by (auto simp: tracked_def track_def streak_of_def split: option.splits)
  show "tracked view (w', st') j = tracked view (w, st) j" if "j \<noteq> InstanceID b"
    using sv w' st' that
    by (auto simp: tracked_def streak_of_def health_of_def split: option.splits)
qed

text \<open>The records of a round: every listed backend that is still there moves by its own result.\<close>

lemma records_tracked:
  assumes "inv w" and "distinct (map InstanceID bs)" and "length oks = length bs"
    and "thresholds_ok cfg" and "streaks_ok cfg st"
    and "fold (\<lambda>(b, ok). record_probe set_healthy cfg b ok initial) (zip bs oks) (w, st) = (w', st')"
  shows "inv w' \<and> map InstanceID (view w') = map InstanceID (view w) \<and> map static (view w') = map static (view w) \<and>
    streaks_ok cfg st' \<and> dom st' = InstanceID ` set bs \<union> dom st \<and>
    (\<forall>k<length bs. InstanceID (bs ! k) \<in> InstanceID ` set (view w) \<longrightarrow>
       tracked view (w', st') (InstanceID (bs ! k)) =
       track_with cfg initial (oks ! k) (tracked view (w, st) (InstanceID (bs ! k)))) \<and>
    (\<forall>j. j \<notin> InstanceID ` set bs \<longrightarrow> tracked view (w', st') j = tracked view (w, st) j)"
  using assms
proof (induction bs arbitrary: oks w st)
  case Nil
  then show ?case by simp
next
  case (Cons b bs)
  from Cons.prems(3) obtain ok oks' where oks: "oks = ok # oks'" "length oks' = length bs"
    by (cases oks) auto
  obtain w1 st1 where one: "record_probe set_healthy cfg b ok initial (w, st) = (w1, st1)" by fastforce
  note r = record_probe_tracked [OF Cons.prems(1,4,5) one]
  from r(2) have ids: "InstanceID ` set (view w1) = InstanceID ` set (view w)" by (metis list.set_map)
  have IH: "inv w' \<and> map InstanceID (view w') = map InstanceID (view w1) \<and> map static (view w') = map static (view w1) \<and>
    streaks_ok cfg st' \<and> dom st' = InstanceID ` set bs \<union> dom st1 \<and>
    (\<forall>k<length bs. InstanceID (bs ! k) \<in> InstanceID ` set (view w1) \<longrightarrow>
       tracked view (w', st') (InstanceID (bs ! k)) =
       track_with cfg initial (oks' ! k) (tracked view (w1, st1) (InstanceID (bs ! k)))) \<and>
    (\<forall>j. j \<notin> InstanceID ` set bs \<longrightarrow> tracked view (w', st') j = tracked view (w1, st1) j)"
    using Cons.prems(2,4,6) oks one r(1,3) by (intro Cons.IH [of w1 oks' st1]) auto
  have "tracked view (w', st') (InstanceID ((b # bs) ! k)) =
      track_with cfg initial (oks ! k) (tracked view (w, st) (InstanceID ((b # bs) ! k)))"
    if "k < length (b # bs)" "InstanceID ((b # bs) ! k) \<in> InstanceID ` set (view w)" for k
  proof (cases k)
    case 0
    with IH r(4) that(2) Cons.prems(2) oks(1) show ?thesis by simp
  next
    case (Suc l)
    with that have l: "l < length bs" by simp
    with Cons.prems(2) have "InstanceID (bs ! l) \<noteq> InstanceID b" by (metis distinct.simps(2) list.simps(9)
        list.set_map imageI nth_mem)
    with Suc l that IH r(5) oks(1) ids show ?thesis by simp
  qed
  with IH r(2,5,6,7) show ?case by auto
qed

lemma probe_all_returns:
  assumes "\<forall>b\<in>set bs. URL b \<noteq> None"
  obtains oks where "probe_all cfg http i bs = Ret oks" "length oks = length bs"
    "\<forall>k<length bs. probe cfg (http (i + k)) (bs ! k) = Ret (oks ! k)"
  using assms
proof (induction bs arbitrary: i thesis)
  case Nil
  then show ?case by simp
next
  case (Cons b bs)
  from Cons.prems(2) obtain ok where ok: "probe cfg (http i) b = Ret ok" by (auto simp: probe_def)
  from Cons.IH [of "Suc i"] Cons.prems(2) obtain oks where oks: "probe_all cfg http (Suc i) bs = Ret oks"
    "length oks = length bs" "\<forall>k<length bs. probe cfg (http (Suc i + k)) (bs ! k) = Ret (oks ! k)" by auto
  with ok show ?case by (intro Cons.prems(1) [of "ok # oks"]) (auto simp: nth_Cons split: nat.splits)
qed

text \<open>One round.\<close>

lemma probe_round:
  assumes "inv w" and "inv (meanwhile w)" and "thresholds_ok cfg" and "streaks_ok cfg st"
  obtains w' st' where
    "probeRound view set_healthy cfg http meanwhile initial (w, st) = Ret (w', st')"
    "inv w'" "streaks_ok cfg st'" "dom st' \<subseteq> InstanceID ` set (view w)"
    "view w = [] \<or> map InstanceID (view w') = map InstanceID (view (meanwhile w))"
    "view w = [] \<or> map static (view w') = map static (view (meanwhile w))"
    "\<forall>k<length (view w). InstanceID (view w ! k) \<in> InstanceID ` set (view (meanwhile w)) \<longrightarrow>
      (\<exists>ok. probe cfg (http k) (view w ! k) = Ret ok \<and>
         tracked view (w', st') (InstanceID (view w ! k)) =
         track_with cfg initial ok (tracked view (meanwhile w, st) (InstanceID (view w ! k))))"
proof (cases "view w = []")
  case True
  with assms that [of w "st |` {}"] show thesis
    by (simp add: probeRound_def streaks_ok_empty)
next
  case False
  let ?st = "st |` (InstanceID ` set (view w))"
  from probe_all_returns [of "view w" cfg http 0] view_urls [OF assms(1)] obtain oks where
    oks: "probe_all cfg http 0 (view w) = Ret oks" "length oks = length (view w)"
      "\<forall>k<length (view w). probe cfg (http k) (view w ! k) = Ret (oks ! k)" by auto
  obtain w' st' where f: "fold (\<lambda>(b, ok). record_probe set_healthy cfg b ok initial) (zip (view w) oks)
      (meanwhile w, ?st) = (w', st')" by fastforce
  have st: "streak_of ?st (InstanceID (view w ! k)) = streak_of st (InstanceID (view w ! k))"
    if "k < length (view w)" for k
    using that by (simp add: streak_of_def)
  note r = records_tracked [OF assms(2) view_ids [OF assms(1)] oks(2) assms(3)
      streaks_ok_restrict [OF assms(3,4)] f]
  have "probeRound view set_healthy cfg http meanwhile initial (w, st) = Ret (w', st')"
    using False oks(1) f by (simp add: probeRound_def Let_def)
  then show thesis
    using r oks(3) st by (intro that [of w' st']) (auto simp: tracked_def)
qed

lemma listed_as_health:
  assumes "inv w" and "listed_as (view w) i u h"
  shows "health_of (view w) i = h"
  using assms view_unique [OF assms(1)] by (fastforce simp: listed_as_def health_of_def)

lemma listed_as_transfer:
  assumes "inv w'" and "map InstanceID (view w') = map InstanceID (view w)"
    and "map URL (view w') = map URL (view w)" and "listed_as (view w) i u h"
  shows "listed_as (view w') i u (health_of (view w') i)"
proof -
  from assms(4) obtain k where k: "k < length (view w)" "InstanceID (view w ! k) = i" "URL (view w ! k) = Some u"
    by (auto simp: listed_as_def in_set_conv_nth)
  from assms(2) have len: "length (view w') = length (view w)" by (metis length_map)
  with k assms(2,3) have "InstanceID (view w' ! k) = i" "URL (view w' ! k) = Some u"
    by (metis nth_map)+
  with k len have l: "listed_as (view w') i u (healthy (view w' ! k))" by (auto simp: listed_as_def)
  with listed_as_health [OF assms(1) l] show ?thesis by simp
qed

text \<open>One backend through one round.\<close>

lemma round_of_backend:
  assumes "inv w" and "thresholds_ok cfg" and "streaks_ok cfg st" and "listed_as (view w) i u h"
    and "inv (meanwhile w)" and "listed_as (view (meanwhile w)) i u h"
    and "\<forall>k. good (http k (target_of cfg u)) = ok"
  obtains w' st' where
    "probeRound view set_healthy cfg http meanwhile initial (w, st) = Ret (w', st')"
    "inv w'" "streaks_ok cfg st'"
    "streak_of st' i = fst (track_with cfg initial ok (streak_of st i, h))"
    "listed_as (view w') i u (snd (track_with cfg initial ok (streak_of st i, h)))"
proof -
  from probe_round [where meanwhile = meanwhile and http = http and initial = initial, OF assms(1,5,2,3)] obtain w' st' where r:
    "probeRound view set_healthy cfg http meanwhile initial (w, st) = Ret (w', st')" "inv w'" "streaks_ok cfg st'"
    "dom st' \<subseteq> InstanceID ` set (view w)"
    "view w = [] \<or> map InstanceID (view w') = map InstanceID (view (meanwhile w))"
    "view w = [] \<or> map static (view w') = map static (view (meanwhile w))"
    "\<forall>k<length (view w). InstanceID (view w ! k) \<in> InstanceID ` set (view (meanwhile w)) \<longrightarrow>
      (\<exists>ok. probe cfg (http k) (view w ! k) = Ret ok \<and>
         tracked view (w', st') (InstanceID (view w ! k)) =
         track_with cfg initial ok (tracked view (meanwhile w, st) (InstanceID (view w ! k))))" .
  from assms(4) obtain k where k: "k < length (view w)" "InstanceID (view w ! k) = i" "URL (view w ! k) = Some u"
    by (auto simp: listed_as_def in_set_conv_nth)
  then have ne: "view w \<noteq> []" by auto
  from assms(6) have "i \<in> InstanceID ` set (view (meanwhile w))" by (auto simp: listed_as_def)
  moreover have "probe cfg (http k) (view w ! k) = Ret ok"
    using k(3) assms(7) by (simp add: probe_def good_def target_of_def)
  ultimately have t: "tracked view (w', st') i = track_with cfg initial ok (streak_of st i, h)"
    using r(7) k listed_as_health [OF assms(5,6)] by (auto simp: tracked_def)
  from r(6) ne have "map static (view w') = map static (view (meanwhile w))" by simp
  from static_maps [OF this] have "listed_as (view w') i u (health_of (view w') i)"
    by (intro listed_as_transfer [OF r(2) _ _ assms(6)])
  with r(1-3) show thesis
    by (intro that [of w' st']) (simp_all add: tracked_def flip: t)
qed

lemma run_of_backend:
  assumes "list_all2 (tick_ok inv view cfg i u) ticks oks"
    and "inv w" and "thresholds_ok cfg" and "streaks_ok cfg st" and "listed_as (view w) i u h"
  shows "\<exists>w' st'. Run view set_healthy cfg ticks (w, st) = Ret (w', st') \<and> inv w' \<and> streaks_ok cfg st' \<and>
    streak_of st' i = fst (fold (track_with cfg False) oks (streak_of st i, h)) \<and>
    listed_as (view w') i u (snd (fold (track_with cfg False) oks (streak_of st i, h)))"
  using assms(1,2,4,5)
proof (induction ticks oks arbitrary: w st h rule: list_all2_induct)
  case (Cons tick ticks ok oks)
  obtain http mw where tick: "tick = (http, mw)" by fastforce
  from Cons.hyps(1) tick have "\<forall>k. good (http k (target_of cfg u)) = ok"
    and "inv (mw w)" "listed_as (view (mw w)) i u h"
    using Cons.prems by (auto simp: tick_ok_def)
  from round_of_backend [where meanwhile = mw and http = http and initial = False,
      OF Cons.prems(1) assms(3) Cons.prems(2,3) this(2,3,1)]
  obtain w1 st1 where 1: "probeRound view set_healthy cfg http mw False (w, st) = Ret (w1, st1)" "inv w1"
    "streaks_ok cfg st1" "streak_of st1 i = fst (track_with cfg False ok (streak_of st i, h))"
    "listed_as (view w1) i u (snd (track_with cfg False ok (streak_of st i, h)))" .
  from Cons.IH [OF 1(2,3,5)] 1(1,4) tick show ?case by simp
qed auto

end

section \<open>Hysteresis\<close>

text \<open>
  What the thresholds mean, read off the results, the newest first: the backend is up if the
  last \<open>H\<close> results are successes, down if the last \<open>U\<close> are failures, and otherwise what it was
  before the newest result.
\<close>

fun hysteresis :: "nat \<Rightarrow> nat \<Rightarrow> bool \<Rightarrow> bool list \<Rightarrow> bool" where
  "hysteresis H U h [] = h"
| "hysteresis H U h (r # older) =
     (if H \<le> length (takeWhile (\<lambda>x. x) (r # older)) then True
      else if U \<le> length (takeWhile Not (r # older)) then False
      else hysteresis H U h older)"

text \<open>The lengths of the newest run of successes and of failures; one of them is zero.\<close>

definition ups :: "bool list \<Rightarrow> nat" where
  "ups rs = length (takeWhile (\<lambda>x. x) rs)"

definition downs :: "bool list \<Rightarrow> nat" where
  "downs rs = length (takeWhile Not rs)"

lemma run_simps [simp]:
  "ups [] = 0" "downs [] = 0"
  "ups (r # rs) = (if r then Suc (ups rs) else 0)" "downs (r # rs) = (if r then 0 else Suc (downs rs))"
  by (simp_all add: ups_def downs_def)

lemma runs_exclusive: "ups rs = 0 \<or> downs rs = 0"
  by (cases rs) auto

lemma hysteresis_Cons:
  "hysteresis H U h (r # older) =
     (if H \<le> ups (r # older) then True else if U \<le> downs (r # older) then False else hysteresis H U h older)"
  by (simp add: ups_def downs_def)

declare hysteresis.simps(2) [simp del]

lemma hysteresis_settled:
  "1 \<le> H \<Longrightarrow> H \<le> ups rs \<Longrightarrow> hysteresis H U h rs"
  "1 \<le> H \<Longrightarrow> 1 \<le> U \<Longrightarrow> U \<le> downs rs \<Longrightarrow> \<not> hysteresis H U h rs"
  by (cases rs; simp add: hysteresis_Cons split: if_splits)+

text \<open>The streak after the results, the newest first.\<close>

definition streak_after :: "int \<Rightarrow> int \<Rightarrow> bool list \<Rightarrow> int" where
  "streak_after H U rs = (if ups rs > 0 then min H (int (ups rs)) else max (- U) (- int (downs rs)))"

lemma track_step:
  assumes "1 \<le> H" and "1 \<le> U"
  shows "track H U False r (streak_after H U rs, hysteresis (nat H) (nat U) h rs) =
    (streak_after H U (r # rs), hysteresis (nat H) (nat U) h (r # rs))"
proof (cases r)
  case True
  have "verdict H U False r (streak_after H U rs) = (if int (ups rs) + 1 = H then Some True else None)"
    using True assms by (auto simp: verdict_def streak_after_def max_def min_def)
  moreover have "H \<le> int (ups rs) \<Longrightarrow> hysteresis (nat H) (nat U) h rs"
    using hysteresis_settled(1) [of "nat H"] assms by (simp add: nat_le_iff)
  ultimately show ?thesis
    using True assms runs_exclusive [of rs]
    by (auto simp: track_def next_streak_def streak_after_def hysteresis_Cons nat_le_iff max_def min_def)
next
  case False
  have "verdict H U False r (streak_after H U rs) = (if int (downs rs) + 1 = U then Some False else None)"
    using False assms runs_exclusive [of rs] by (auto simp: verdict_def streak_after_def max_def min_def)
  moreover have "U \<le> int (downs rs) \<Longrightarrow> \<not> hysteresis (nat H) (nat U) h rs"
    using hysteresis_settled(2) [of "nat H" "nat U"] assms by (simp add: nat_le_iff)
  ultimately show ?thesis
    using False assms runs_exclusive [of rs]
    by (auto simp: track_def next_streak_def streak_after_def hysteresis_Cons nat_le_iff max_def min_def)
qed

lemma track_hysteresis:
  assumes "1 \<le> H" and "1 \<le> U"
  shows "fold (track H U False) rs (0, h) = (streak_after H U (rev rs), hysteresis (nat H) (nat U) h (rev rs))"
proof (induction rs rule: rev_induct)
  case Nil
  then show ?case using assms by (simp add: streak_after_def)
next
  case (snoc r rs)
  with track_step [OF assms] show ?case by simp
qed

section \<open>Properties\<close>

text \<open>
  C32. One probe round does to every backend what the automaton \<open>track\<close> does to its streak and its
  health: it never panics on a well-formed registry, keeps the registry and the streak bounds,
  changes nothing of a backend but its health,
  forgets the streaks of backends that have left, and moves each backend that is still
  registered by its own probe result alone.
\<close>

theorem probe_round_refines:
  assumes "reg_ok w" and "reg_ok (meanwhile w)" and "thresholds_ok cfg" and "streaks_ok cfg st"
  shows "\<exists>w' st'. probeRound abs_reg SetHealthy cfg http meanwhile initial (w, st) = Ret (w', st') \<and>
    reg_ok w' \<and> streaks_ok cfg st' \<and> dom st' \<subseteq> InstanceID ` set (abs_reg w) \<and>
    (abs_reg w = [] \<or> map static (abs_reg w') = map static (abs_reg (meanwhile w))) \<and>
    (\<forall>k<length (abs_reg w). InstanceID (abs_reg w ! k) \<in> InstanceID ` set (abs_reg (meanwhile w)) \<longrightarrow>
      (\<exists>ok. probe cfg (http k) (abs_reg w ! k) = Ret ok \<and>
         tracked abs_reg (w', st') (InstanceID (abs_reg w ! k)) =
         track_with cfg initial ok (tracked abs_reg (meanwhile w, st) (InstanceID (abs_reg w ! k)))))"
  by (rule reg.probe_round [where meanwhile = meanwhile and http = http and initial = initial, OF assms])
    (intro exI conjI; assumption)

definition sample_probe_config :: probe_config where
  "sample_probe_config = withDefaults \<lparr>Interval = 0, Timeout = 0, ProbePath = [], HealthyThreshold = 1,
     UnhealthyThreshold = 2, MaxConcurrent = 0\<rparr>"

lemma sample_thresholds: "thresholds_ok sample_probe_config"
  "HealthyThreshold sample_probe_config = 1" "UnhealthyThreshold sample_probe_config = 2"
  by (simp_all add: thresholds_ok_def sample_probe_config_def withDefaults_thresholds)

definition one_backend :: backend where
  "one_backend = \<lparr>InstanceID = ''a'', URL = Some (mk_url ''http'' ''svc:80'' []), healthy = False,
     ActiveConnectionsNo = 0, Weight = 1\<rparr>"

lemma one_backend_world:
  "reg_ok (boot [one_backend])" "abs_reg (boot [one_backend]) = [one_backend]"
  by (simp_all add: boot_facts one_backend_def reg_ok_def)

lemma probe_round_refines_witness:
  "\<exists>w' st'. probeRound abs_reg SetHealthy sample_probe_config (\<lambda>_ _. Some 200) (\<lambda>w. w) True
      (boot [one_backend], Map.empty) = Ret (w', st') \<and> tracked abs_reg (w', st') ''a'' = (1, True)"
proof -
  from probe_round_refines [OF one_backend_world(1), where meanwhile = "\<lambda>w. w" and cfg = sample_probe_config
      and st = "\<lambda>_. None" and http = "\<lambda>_ _. Some 200" and initial = True]
    one_backend_world sample_thresholds(1) streaks_ok_empty [OF sample_thresholds(1)]
  obtain w' st' ok where "probeRound abs_reg SetHealthy sample_probe_config (\<lambda>_ _. Some 200) (\<lambda>w. w) True
      (boot [one_backend], Map.empty) = Ret (w', st')"
    and "probe sample_probe_config (\<lambda>_. Some 200) one_backend = Ret ok"
    and "tracked abs_reg (w', st') ''a'' =
      track_with sample_probe_config True ok (tracked abs_reg (boot [one_backend], Map.empty) ''a'')"
    by (auto simp: one_backend_def)
  then show ?thesis
    by (auto simp: probe_def one_backend_def tracked_def track_def streak_of_def next_streak_def verdict_def
        sample_thresholds)
qed

text \<open>
  C13. The probing loop turns results into routing by hysteresis.  After any number of ticks, a
  backend that stays registered is up if its last \<open>HealthyThreshold\<close> results are successes, down if
  its last \<open>UnhealthyThreshold\<close> are failures, and otherwise as it was after the result before: so
  it is evicted after exactly that many failures in a row and no single blip flaps it.
\<close>

theorem prober_hysteresis:
  assumes "list_all2 (tick_ok reg_ok abs_reg cfg i u) ticks oks"
    and "reg_ok w" and "thresholds_ok cfg" and "listed_as (abs_reg w) i u h"
  shows "\<exists>w' st'. Run abs_reg SetHealthy cfg ticks (w, Map.empty) = Ret (w', st') \<and> reg_ok w' \<and> streaks_ok cfg st' \<and>
    streak_of st' i = streak_after (HealthyThreshold cfg) (UnhealthyThreshold cfg) (rev oks) \<and>
    listed_as (abs_reg w') i u
      (hysteresis (nat (HealthyThreshold cfg)) (nat (UnhealthyThreshold cfg)) h (rev oks))"
proof -
  have "fold (track_with cfg False) oks (streak_of (\<lambda>_. None) i, h) =
      (streak_after (HealthyThreshold cfg) (UnhealthyThreshold cfg) (rev oks),
       hysteresis (nat (HealthyThreshold cfg)) (nat (UnhealthyThreshold cfg)) h (rev oks))"
    using track_hysteresis [of "HealthyThreshold cfg" "UnhealthyThreshold cfg" oks h] assms(3)
    by (simp add: thresholds_ok_def streak_of_def)
  with reg.run_of_backend [OF assms(1-3) streaks_ok_empty [OF assms(3)] assms(4)] show ?thesis
    by simp
qed

lemma prober_hysteresis_witness:
  "\<exists>w' st'. Run abs_reg SetHealthy sample_probe_config
      (map (\<lambda>status. (\<lambda>_ _. status, \<lambda>w. w)) [Some 200, None, Some 503]) (boot [one_backend], Map.empty) = Ret (w', st') \<and>
    listed_as (abs_reg w') ''a'' (mk_url ''http'' ''svc:80'' []) False"
proof -
  let ?ticks = "map (\<lambda>status. (\<lambda>_ _. status, \<lambda>w. w)) [Some 200, None, Some 503]"
  have ticks: "list_all2 (tick_ok reg_ok abs_reg sample_probe_config ''a'' (mk_url ''http'' ''svc:80'' []))
      ?ticks [True, False, False]"
    by (simp add: tick_ok_def good_def)
  have l: "listed_as (abs_reg (boot [one_backend])) ''a'' (mk_url ''http'' ''svc:80'' []) False"
    unfolding one_backend_world(2) by (simp add: listed_as_def one_backend_def)
  have h: "hysteresis (nat 1) (nat 2) False (rev [True, False, False]) = False"
    by (simp add: hysteresis_Cons)
  from prober_hysteresis [OF ticks one_backend_world(1) sample_thresholds(1) l, unfolded sample_thresholds h]
  show ?thesis by blast
qed

text \<open>A registry that only writes down the reports it gets, and the default configuration.\<close>

definition log_report :: "string \<Rightarrow> bool \<Rightarrow> bool list \<Rightarrow> bool list \<times> bool" where
  "log_report i v log = (log @ [v], True)"

definition default_probe_config :: probe_config where
  "default_probe_config = withDefaults \<lparr>Interval = 0, Timeout = 0, ProbePath = [], HealthyThreshold = 0,
     UnhealthyThreshold = 0, MaxConcurrent = 0\<rparr>"

lemma default_thresholds:
  "HealthyThreshold default_probe_config = 1" "UnhealthyThreshold default_probe_config = 3"
  by (simp_all add: default_probe_config_def withDefaults_thresholds)

text \<open>
  Reports need not be transitions: with the default thresholds every success after a single
  failed probe reports the backend healthy again, although nothing evicted it in between; \<open>n\<close> such
  blips after the first success give \<open>n + 1\<close> reports, all of them \<open>True\<close>.
\<close>

theorem redundant_health_reports:
  "fst (fold (\<lambda>ok. record_probe log_report default_probe_config b ok False)
     (True # concat (replicate n [False, True])) ([], Map.empty)) = replicate (Suc n) True"
proof -
  have step: "record_probe log_report default_probe_config b ok False (log, st) =
      (case verdict 1 3 False ok (streak_of st (InstanceID b)) of None \<Rightarrow> log | Some v \<Rightarrow> log @ [v],
       st(InstanceID b \<mapsto> next_streak 1 3 ok (streak_of st (InstanceID b))))"
    if "in_range 1 3 (streak_of st (InstanceID b))" for ok log st
    using record_probe_abs [of default_probe_config st b log_report ok False log] that
    by (simp add: default_thresholds log_report_def split: option.splits)
  have "fst (fold (\<lambda>ok. record_probe log_report default_probe_config b ok False)
      (concat (replicate n [False, True])) (log, st)) = log @ replicate n True"
    if "streak_of st (InstanceID b) = 1" for log st n
    using that
    by (induction n arbitrary: log st)
      (simp_all add: step in_range_def verdict_def next_streak_def streak_of_def)
  then show ?thesis by (simp add: step in_range_def verdict_def next_streak_def streak_of_def)
qed

end
