(* ===== verification/GoNumbers.thy ===== *)
theory GoNumbers
  imports Netip
begin

text \<open>
  Numbers as the program reads and prints them: \<open>strconv.Atoi\<close> and \<open>strconv.Itoa\<close> on a 64-bit
  machine, and \<open>time.ParseDuration\<close>, whose result is a number of nanoseconds.  A duration is a
  sequence of decimal numbers, each with a fraction and a unit; the fractions go through 64-bit
  floating point numbers, rounded to even, and the sum is a 64-bit word.
\<close>

section \<open>Integers\<close>

fun decimal :: "nat \<Rightarrow> string \<Rightarrow> nat option" where
  "decimal acc [] = Some acc"
| "decimal acc (c # cs) =
     (case digit_value c of None \<Rightarrow> None | Some d \<Rightarrow> decimal (10 * acc + d) cs)"

definition Atoi :: "string \<Rightarrow> int option" where
  "Atoi s =
     (let neg = (s \<noteq> [] \<and> hd s = CHR ''-'');
          ds = (if s \<noteq> [] \<and> (hd s = CHR ''-'' \<or> hd s = CHR ''+'') then tl s else s)
      in if ds = [] then None
         else case decimal 0 ds of
             None \<Rightarrow> None
           | Some n \<Rightarrow>
               (let v = (if neg then - int n else int n)
                in if - (2 ^ 63) \<le> v \<and> v < 2 ^ 63 then Some v else None))"

definition Itoa :: "int \<Rightarrow> string" where
  "Itoa n = (if n < 0 then CHR ''-'' # dec (nat (- n)) else dec (nat n))"

lemma digit_facts: "d < 10 \<Longrightarrow> digit_value (hex_digit d) = Some d \<and> code_in 48 57 (hex_digit d)"
proof -
  have "list_all (\<lambda>d. digit_value (hex_digit d) = Some d \<and> code_in 48 57 (hex_digit d)) [0..<10]" by code_simp
  then show "d < 10 \<Longrightarrow> digit_value (hex_digit d) = Some d \<and> code_in 48 57 (hex_digit d)"
    by (simp add: list_all_iff del: upt_conv_Cons)
qed

lemma decimal_append: "decimal acc (xs @ ys) = Option.bind (decimal acc xs) (\<lambda>n. decimal n ys)"
  by (induction acc xs rule: decimal.induct) (auto split: option.splits)

lemma decimal_dec: "decimal 0 (dec n) = Some n"
proof (induction n rule: dec.induct)
  case (1 n)
  then show ?case
    by (subst dec.simps) (simp add: decimal_append digit_facts)
qed

lemma dec_digits: "c \<in> set (dec n) \<Longrightarrow> code_in 48 57 c"
proof (induction n rule: dec.induct)
  case (1 n)
  from 1(2) show ?case
    by (subst (asm) dec.simps) (auto simp: digit_facts split: if_splits intro: 1(1))
qed

lemma dec_nonempty [simp]: "dec n \<noteq> []"
  by (subst dec.simps) simp

lemma Itoa_inj: "0 \<le> m \<Longrightarrow> 0 \<le> n \<Longrightarrow> Itoa m = Itoa n \<longleftrightarrow> m = n"
  by (metis Itoa_def decimal_dec eq_nat_nat_iff linorder_not_less option.inject)

section \<open>Floating point\<close>

text \<open>
  Positive numbers of type \<open>float64\<close> as quotients of naturals.  The exponent is not bounded:
  outside its range the fraction of a duration is below one nanosecond, and dropped.
\<close>

type_synonym quotient = "nat \<times> nat"

definition round_even :: "nat \<Rightarrow> nat \<Rightarrow> nat" where
  "round_even n d =
     (let q = n div d; r = n mod d in if d < 2 * r \<or> d = 2 * r \<and> odd q then q + 1 else q)"

fun bit_length :: "nat \<Rightarrow> nat" where
  "bit_length n = (if n = 0 then 0 else Suc (bit_length (n div 2)))"

declare bit_length.simps [simp del]

text \<open>The binary exponent of \<open>n / d\<close> and its nearest number with 53 significant bits.\<close>

definition exponent :: "nat \<Rightarrow> nat \<Rightarrow> int" where
  "exponent n d =
     (let a = bit_length n; b = bit_length d
      in if d * 2 ^ a \<le> n * 2 ^ b then int a - int b else int a - int b - 1)"

definition float64 :: "quotient \<Rightarrow> quotient" where
  "float64 q =
     (case q of (n, d) \<Rightarrow>
        (let e = exponent n d - 52
         in if 0 \<le> e then (round_even n (d * 2 ^ nat e) * 2 ^ nat e, 1)
            else (round_even (n * 2 ^ nat (- e)) d, 2 ^ nat (- e))))"

definition times_float :: "quotient \<Rightarrow> quotient \<Rightarrow> quotient" where
  "times_float p q = float64 (fst p * fst q, snd p * snd q)"

definition divide_float :: "quotient \<Rightarrow> quotient \<Rightarrow> quotient" where
  "divide_float p q = float64 (fst p * snd q, snd p * fst q)"

definition truncate :: "quotient \<Rightarrow> nat" where
  "truncate q = fst q div snd q"

section \<open>Durations\<close>

text \<open>\<open>leadingInt\<close>: a run of digits as a number of at most 2^63, and the rest.\<close>

fun leadingInt :: "nat \<Rightarrow> string \<Rightarrow> (nat \<times> string) option" where
  "leadingInt x [] = Some (x, [])"
| "leadingInt x (c # cs) =
     (case digit_value c of
        None \<Rightarrow> Some (x, c # cs)
      | Some d \<Rightarrow>
          if x > 2 ^ 63 div 10 then None
          else if x * 10 + d > 2 ^ 63 then None
          else leadingInt (x * 10 + d) cs)"

text \<open>\<open>leadingFraction\<close>: the digits that fit, the power of ten they are to be divided by, the rest.\<close>

fun leadingFraction :: "nat \<Rightarrow> quotient \<Rightarrow> bool \<Rightarrow> string \<Rightarrow> nat \<times> quotient \<times> string" where
  "leadingFraction x scale overflow [] = (x, scale, [])"
| "leadingFraction x scale overflow (c # cs) =
     (case digit_value c of
        None \<Rightarrow> (x, scale, c # cs)
      | Some d \<Rightarrow>
          if overflow then leadingFraction x scale True cs
          else if x > (2 ^ 63 - 1) div 10 then leadingFraction x scale True cs
          else if x * 10 + d > 2 ^ 63 then leadingFraction x scale True cs
          else leadingFraction (x * 10 + d) (times_float scale (10, 1)) False cs)"

text \<open>The micro sign and the Greek letter mu are two bytes each.\<close>

definition unitMap :: "string \<Rightarrow> nat option" where
  "unitMap u =
     (if u = ''ns'' then Some 1
      else if u = ''us'' \<or> u = [CHR 0xC2, CHR 0xB5, CHR ''s''] \<or> u = [CHR 0xCE, CHR 0xBC, CHR ''s''] then Some 1000
      else if u = ''ms'' then Some 1000000
      else if u = ''s'' then Some 1000000000
      else if u = ''m'' then Some 60000000000
      else if u = ''h'' then Some 3600000000000
      else None)"

definition unit_char :: "char \<Rightarrow> bool" where
  "unit_char c \<longleftrightarrow> c \<noteq> CHR ''.'' \<and> digit_value c = None"

text \<open>One number with its unit, as nanoseconds, and the rest.\<close>

definition duration_part :: "string \<Rightarrow> (nat \<times> string) option" where
  "duration_part s =
     (if s = [] \<or> hd s \<noteq> CHR ''.'' \<and> digit_value (hd s) = None then None
      else case leadingInt 0 s of
        None \<Rightarrow> None
      | Some (v, s1) \<Rightarrow>
          (let dot = (s1 \<noteq> [] \<and> hd s1 = CHR ''.'');
               (f, scale, s2) = (if dot then leadingFraction 0 (1, 1) False (tl s1) else (0, (1, 1), s1));
               pre = (s1 \<noteq> s); post = (dot \<and> s2 \<noteq> tl s1);
               u = takeWhile unit_char s2; s3 = dropWhile unit_char s2
           in if \<not> pre \<and> \<not> post \<or> u = [] then None
              else case unitMap u of
                None \<Rightarrow> None
              | Some unit \<Rightarrow>
                  if v > 2 ^ 63 div unit then None
                  else
                    (let frac = (if f > 0 then truncate (times_float (float64 (f, 1)) (divide_float (unit, 1) scale)) else 0);
                         w = (v * unit + frac) mod 2 ^ 64
                     in if f > 0 \<and> w > 2 ^ 63 then None else Some (w, s3))))"

lemma leadingInt_length: "leadingInt x s = Some (v, s1) \<Longrightarrow> length s1 \<le> length s"
  by (induction x s rule: leadingInt.induct) (auto split: option.splits if_splits)

lemma leadingFraction_length: "leadingFraction x sc ov s = (f, sc', s1) \<Longrightarrow> length s1 \<le> length s"
  by (induction x sc ov s rule: leadingFraction.induct) (auto split: option.splits if_splits)

lemma duration_part_length: "duration_part s = Some (v, s') \<Longrightarrow> length s' < length s"
proof -
  assume a: "duration_part s = Some (v, s')"
  then obtain v1 s1 where 1: "leadingInt 0 s = Some (v1, s1)"
    by (auto simp: duration_part_def split: if_splits option.splits)
  obtain f sc s2 where 2: "(if s1 \<noteq> [] \<and> hd s1 = CHR ''.'' then leadingFraction 0 (1, 1) False (tl s1) else (0, (1, 1), s1)) = (f, sc, s2)"
    by (metis surj_pair)
  from a 1 2 have 3: "s' = dropWhile unit_char s2" "takeWhile unit_char s2 \<noteq> []"
    by (auto simp: duration_part_def Let_def split: if_splits option.splits)
  have "length s2 \<le> length s1"
    using 2 leadingFraction_length [of 0 "(1, 1)" False "tl s1" f sc s2] by (auto split: if_splits)
  moreover have "length s' < length s2"
    using 3 by (metis append_Nil length_greater_0_conv takeWhile_dropWhile_id length_append less_add_same_cancel2)
  ultimately show ?thesis using leadingInt_length [OF 1] by simp
qed

function duration_sum :: "nat \<Rightarrow> string \<Rightarrow> nat option" where
  "duration_sum d s =
     (if s = [] then Some d
      else case duration_part s of
        None \<Rightarrow> None
      | Some (v, s') \<Rightarrow>
          if (d + v) mod 2 ^ 64 > 2 ^ 63 then None else duration_sum ((d + v) mod 2 ^ 64) s')"
  by pat_completeness auto

termination duration_sum
  by (relation "measure (\<lambda>(d, s). length s)") (auto dest: duration_part_length)

declare duration_sum.simps [simp del]

text \<open>The result is within the range of \<open>time.Duration\<close>, a signed 64-bit integer.\<close>

definition ParseDuration :: "string \<Rightarrow> int option" where
  "ParseDuration s =
     (let neg = (s \<noteq> [] \<and> hd s = CHR ''-'');
          ds = (if s \<noteq> [] \<and> (hd s = CHR ''-'' \<or> hd s = CHR ''+'') then tl s else s)
      in if ds = ''0'' then Some 0
         else if ds = [] then None
         else case duration_sum 0 ds of
           None \<Rightarrow> None
         | Some d \<Rightarrow> if neg then Some (- int d) else if d > 2 ^ 63 - 1 then None else Some (int d))"


section \<open>What durations parse to\<close>

lemma ParseDuration_range: "ParseDuration s = Some d \<Longrightarrow> - (2 ^ 63) \<le> d \<and> d < 2 ^ 63"
proof -
  have sum: "duration_sum d s = Some e \<Longrightarrow> d \<le> 2 ^ 63 \<Longrightarrow> e \<le> 2 ^ 63" for d s e
    by (induction d s rule: duration_sum.induct)
      (subst (asm) (2) duration_sum.simps, auto split: if_splits option.splits)
  assume "ParseDuration s = Some d"
  then show ?thesis
    using sum [of 0 "if s \<noteq> [] \<and> (hd s = CHR ''-'' \<or> hd s = CHR ''+'') then tl s else s"]
    by (auto simp: ParseDuration_def Let_def split: if_splits option.splits)
qed

lemma leadingInt_append:
  assumes "\<forall>c\<in>set xs. digit_value c \<noteq> None"
  shows "leadingInt x (xs @ ys) = Option.bind (leadingInt x xs) (\<lambda>(v, r). leadingInt v ys)"
  using assms by (induction x xs rule: leadingInt.induct) auto

lemma leadingInt_dec_only: "leadingInt 0 (dec n) = (if n \<le> 2 ^ 63 then Some (n, []) else None)"
proof (induction n rule: dec.induct)
  case (1 n)
  show ?case
  proof (cases "n < 10")
    case True
    then show ?thesis by (subst dec.simps) (simp add: digit_facts)
  next
    case False
    have digits: "\<forall>c\<in>set (dec (n div 10)). digit_value c \<noteq> None"
      using dec_digits by (auto simp: digit_value_def)
    have last: "digit_value (hex_digit (n mod 10)) = Some (n mod 10)" by (simp add: digit_facts)
    have n: "n div 10 * 10 + n mod 10 = n" by simp
    from False 1 have "leadingInt 0 (dec (n div 10)) = (if n div 10 \<le> 2 ^ 63 then Some (n div 10, []) else None)"
      by simp
    moreover have "n \<le> 2 ^ 63 \<Longrightarrow> n div 10 \<le> 2 ^ 63 div 10" by (rule div_le_mono)
    ultimately show ?thesis
      using False n by (subst dec.simps) (auto simp: leadingInt_append [OF digits] last)
  qed
qed

lemma leadingInt_dec:
  assumes "ys = [] \<or> digit_value (hd ys) = None"
  shows "leadingInt 0 (dec n @ ys) = (if n \<le> 2 ^ 63 then Some (n, ys) else None)"
proof -
  have "\<forall>c\<in>set (dec n). digit_value c \<noteq> None" using dec_digits by (auto simp: digit_value_def)
  moreover have "leadingInt n ys = Some (n, ys)" using assms by (cases ys) auto
  ultimately show ?thesis by (simp add: leadingInt_append leadingInt_dec_only)
qed

text \<open>A whole number with a unit, followed by nothing or by another number.\<close>

lemma unit_name: "unitMap u = Some k \<Longrightarrow> u \<noteq> [] \<and> (\<forall>c\<in>set u. unit_char c) \<and> 0 < k"
  by (auto simp: unitMap_def unit_char_def digit_value_def code_in_def split: if_splits)

lemma duration_part_whole:
  assumes "unitMap u = Some k" and "ys = [] \<or> \<not> unit_char (hd ys)"
  shows "duration_part (dec n @ u @ ys) = (if n * k \<le> 2 ^ 63 then Some (n * k, ys) else None)"
proof -
  note u = unit_name [OF assms(1)]
  have first: "digit_value (hd (dec n @ u @ ys)) \<noteq> None"
    using dec_digits [of "hd (dec n)" n] by (auto simp: digit_value_def)
  have "unit_char (hd (u @ ys))" using u by (cases u) auto
  then have h: "hd (u @ ys) \<noteq> CHR ''.''" "digit_value (hd (u @ ys)) = None" by (simp_all add: unit_char_def)
  have lead: "leadingInt 0 (dec n @ u @ ys) = (if n \<le> 2 ^ 63 then Some (n, u @ ys) else None)"
    by (rule leadingInt_dec) (simp add: h)
  have split: "takeWhile unit_char (u @ ys) = u" "dropWhile unit_char (u @ ys) = ys"
    using u assms(2) by (cases ys; auto simp: takeWhile_append dropWhile_append)+
  have le: "9223372036854775808 div k < n \<longleftrightarrow> \<not> n * k \<le> 9223372036854775808"
    using u by (simp add: div_less_iff_less_mult not_le)
  have "n * k \<le> 2 ^ 63 \<Longrightarrow> n \<le> 2 ^ 63" using u by (metis le_trans mult.right_neutral mult_le_mono2 Suc_leI One_nat_def)
  then show ?thesis
    using u h first by (auto simp: duration_part_def lead split assms(1) le Let_def)
qed


text \<open>A duration written out as whole numbers with units, and its length.\<close>

definition print_duration :: "(nat \<times> string) list \<Rightarrow> string" where
  "print_duration parts = concat (map (\<lambda>(n, u). dec n @ u) parts)"

definition nanoseconds :: "(nat \<times> string) list \<Rightarrow> nat" where
  "nanoseconds parts = sum_list (map (\<lambda>(n, u). n * the (unitMap u)) parts)"

definition known_units :: "(nat \<times> string) list \<Rightarrow> bool" where
  "known_units parts \<longleftrightarrow> list_all (\<lambda>(n, u). unitMap u \<noteq> None) parts"

lemma print_duration_head:
  "print_duration parts = [] \<or> \<not> unit_char (hd (print_duration parts)) \<and>
     hd (print_duration parts) \<noteq> CHR ''-'' \<and> hd (print_duration parts) \<noteq> CHR ''+''"
proof (cases parts)
  case (Cons p ps)
  obtain n u where p: "p = (n, u)" by fastforce
  have "code_in 48 57 (hd (dec n))" using dec_digits [of "hd (dec n)" n] by simp
  then show ?thesis using Cons p by (auto simp: print_duration_def unit_char_def digit_value_def code_in_def)
qed (simp add: print_duration_def)

lemma duration_sum_parts:
  "known_units parts \<Longrightarrow> d + nanoseconds parts \<le> 2 ^ 63 \<Longrightarrow>
   duration_sum d (print_duration parts) = Some (d + nanoseconds parts)"
proof (induction parts arbitrary: d)
  case Nil
  then show ?case by (subst duration_sum.simps) (simp add: print_duration_def nanoseconds_def)
next
  case (Cons p ps)
  obtain n u where p: "p = (n, u)" by fastforce
  with Cons.prems(1) obtain k where k: "unitMap u = Some k" by (auto simp: known_units_def)
  have all: "print_duration (p # ps) = dec n @ u @ print_duration ps" "nanoseconds (p # ps) = n * k + nanoseconds ps"
    by (simp_all add: print_duration_def nanoseconds_def p k)
  have "duration_part (dec n @ u @ print_duration ps) = Some (n * k, print_duration ps)"
    using duration_part_whole [OF k, of "print_duration ps" n] print_duration_head [of ps] Cons.prems(2) all(2) by auto
  moreover have "duration_sum (d + n * k) (print_duration ps) = Some (d + n * k + nanoseconds ps)"
    using Cons.prems by (intro Cons.IH) (simp_all add: known_units_def all(2))
  ultimately show ?case
    using Cons.prems(2) unfolding all by (subst duration_sum.simps) simp
qed

text \<open>A printed duration parses to its length, with either sign; beyond the range it is refused.\<close>

lemma ParseDuration_print:
  assumes "known_units parts" and "parts \<noteq> []" and "nanoseconds parts < 2 ^ 63"
  shows "ParseDuration (print_duration parts) = Some (int (nanoseconds parts))"
    and "ParseDuration (CHR ''-'' # print_duration parts) = Some (- int (nanoseconds parts))"
proof -
  have sum: "duration_sum 0 (print_duration parts) = Some (nanoseconds parts)"
    using duration_sum_parts [OF assms(1), of 0] assms(3) by simp
  obtain n u ps k where parts: "parts = (n, u) # ps" "unitMap u = Some k"
    using assms(1,2) by (cases parts) (auto simp: known_units_def)
  then have "print_duration parts = dec n @ u @ print_duration ps" "u \<noteq> []"
    using unit_name [of u k] by (auto simp: print_duration_def)
  then obtain a b cs where long: "print_duration parts = a # b # cs"
    using dec_nonempty [of n] by (metis append_Cons list.exhaust append_is_Nil_conv append_self_conv2)
  have ne: "print_duration parts \<noteq> ''0''" "print_duration parts \<noteq> []" using long by auto
  from print_duration_head [of parts] ne(2)
  have sign: "hd (print_duration parts) \<noteq> CHR ''-''" "hd (print_duration parts) \<noteq> CHR ''+''" by auto
  show "ParseDuration (print_duration parts) = Some (int (nanoseconds parts))"
    using sum ne sign assms(3) by (simp add: ParseDuration_def)
  show "ParseDuration (CHR ''-'' # print_duration parts) = Some (- int (nanoseconds parts))"
    using sum ne by (simp add: ParseDuration_def)
qed

lemma ParseDuration_overflow:
  assumes "unitMap u = Some k" and "2 ^ 63 \<le> n * k"
  shows "ParseDuration (dec n @ u) = None"
proof -
  have "code_in 48 57 (hd (dec n))" using dec_digits [of "hd (dec n)" n] by simp
  then have sign: "hd (dec n) \<noteq> CHR ''-''" "hd (dec n) \<noteq> CHR ''+''" by (auto simp: code_in_def)
  have "dec n @ u \<noteq> ''0''" using unit_name [OF assms(1)] by (simp add: append_eq_Cons_conv)
  moreover have "duration_sum 0 (dec n @ u) = (if n * k \<le> 2 ^ 63 then Some (n * k) else None)"
    using duration_part_whole [OF assms(1), of "[]" n]
    by (subst duration_sum.simps) (simp, subst duration_sum.simps, simp)
  ultimately show ?thesis using sign assms(2) by (simp add: ParseDuration_def)
qed

end
