(* ===== verification/Config.thy ===== *)
theory Config
  imports Failover Prober GoNumbers
begin

text \<open>
  The package \<open>internal/config\<close> (types.go, validate.go, load.go): the settings, their validation
  and their conversion into the inputs of the other packages.  The parameter \<open>url_parse\<close> stands for
  \<open>url.Parse\<close>, with \<open>None\<close> for an error, and \<open>uid n\<close> is the \<open>n\<close>-th identifier the uuid package
  generates.
\<close>

section \<open>Settings\<close>

definition StrategyIPHash :: string where "StrategyIPHash = ''ip-hash''"
definition StrategyLeastConnections :: string where "StrategyLeastConnections = ''least-connections''"
definition StrategyRandom :: string where "StrategyRandom = ''random''"
definition StrategyRoundRobin :: string where "StrategyRoundRobin = ''round-robin''"

lemmas strategy_defs = StrategyIPHash_def StrategyLeastConnections_def StrategyRandom_def StrategyRoundRobin_def

definition DefaultBalancerPort :: int where "DefaultBalancerPort = 8080"
definition DefaultRegistryPort :: int where "DefaultRegistryPort = 8081"
definition DefaultMetricsPort :: int where "DefaultMetricsPort = 2112"
definition DefaultServerReadTimeout :: int where "DefaultServerReadTimeout = 5 * 10 ^ 9"
definition DefaultServerWriteTimeout :: int where "DefaultServerWriteTimeout = 10 * 10 ^ 9"
definition DefaultProxyBodyLimit :: int where "DefaultProxyBodyLimit = 16 * 1024"

record backend_settings =
  bs_URL :: string
  bs_Weight :: u64

record server_settings =
  ss_Port :: int
  ss_ReadTimeout :: string
  ss_WriteTimeout :: string

record balancer_settings =
  bal_Strategy :: string
  bal_MaxRetries :: int
  bal_Server :: server_settings

record health_client_settings =
  hc_Timeout :: string
  hc_Path :: string

record health_settings =
  hs_Interval :: string
  hs_HealthyThreshold :: int
  hs_UnhealthyThreshold :: int
  hs_MaxConcurrent :: int
  hs_Client :: health_client_settings

record registry_settings =
  rs_Server :: server_settings

record discovery_settings =
  ds_Mode :: string
  ds_Registry :: registry_settings

record metrics_settings =
  ms_Server :: server_settings

record observability_settings =
  os_Metrics :: metrics_settings

record proxy_settings =
  ps_BodyLimit :: int
  ps_TrustedProxies :: "string list"

record config =
  cfg_Backends :: "backend_settings list"
  cfg_Balancer :: balancer_settings
  cfg_Health :: health_settings
  cfg_Discovery :: discovery_settings
  cfg_Observability :: observability_settings
  cfg_Proxy :: proxy_settings

abbreviation cfg_RegistryServer :: "config \<Rightarrow> server_settings" where
  "cfg_RegistryServer c \<equiv> rs_Server (ds_Registry (cfg_Discovery c))"

abbreviation cfg_MetricsServer :: "config \<Rightarrow> server_settings" where
  "cfg_MetricsServer c \<equiv> ms_Server (os_Metrics (cfg_Observability c))"

section \<open>Prefixes and ports\<close>

definition parsePrefix :: "string \<Rightarrow> ip_prefix option" where
  "parsePrefix s =
     (if CHR ''/'' \<in> set s then map_option Masked (ParsePrefix s)
      else case ParseAddr s of
        None \<Rightarrow> None
      | Some addr \<Rightarrow> Some (PrefixFrom (Unmap addr) (BitLen (Unmap addr))))"

definition portOr :: "server_settings \<Rightarrow> int \<Rightarrow> int" where
  "portOr s def = (if ss_Port s \<noteq> 0 then ss_Port s else def)"

section \<open>Validation\<close>

text \<open>One constructor per message of the code, with the values it prints.\<close>

datatype config_error =
    UnknownStrategy string
  | InvalidURL nat string
  | MissingSchemeOrHost nat string
  | NotHTTP nat string
  | WeightTooLarge nat u64
  | InvalidDuration string string
  | NegativeDuration string string
  | NegativeSetting string int
  | InvalidPort string int
  | PortInUse string int string
  | InvalidPrefix nat string

definition validate_strategy :: "config \<Rightarrow> config_error list" where
  "validate_strategy c =
     (let s = bal_Strategy (cfg_Balancer c)
      in if s \<in> {StrategyIPHash, StrategyLeastConnections, StrategyRandom, StrategyRoundRobin, []}
         then [] else [UnknownStrategy s])"

fun validate_backends :: "(string \<Rightarrow> url option) \<Rightarrow> nat \<Rightarrow> backend_settings list \<Rightarrow> config_error list" where
  "validate_backends url_parse i [] = []"
| "validate_backends url_parse i (b # bs) =
     (case url_parse (bs_URL b) of
        None \<Rightarrow> [InvalidURL i (bs_URL b)]
      | Some u \<Rightarrow>
          if url_Scheme u = [] \<or> url_Host u = [] then [MissingSchemeOrHost i (bs_URL b)]
          else if url_Scheme u \<noteq> ''http'' \<and> url_Scheme u \<noteq> ''https'' then [NotHTTP i (bs_URL b)]
          else []) @
     (if bs_Weight b > MaxWeight then [WeightTooLarge i (bs_Weight b)] else []) @
     validate_backends url_parse (Suc i) bs"

definition validateDuration :: "string \<Rightarrow> string \<Rightarrow> config_error list" where
  "validateDuration field s =
     (if s = [] then []
      else case ParseDuration s of
        None \<Rightarrow> [InvalidDuration field s]
      | Some d \<Rightarrow> if d < 0 then [NegativeDuration field s] else [])"

definition non_negative :: "string \<Rightarrow> int \<Rightarrow> config_error list" where
  "non_negative field n = (if n < 0 then [NegativeSetting field n] else [])"

text \<open>\<open>validateServer\<close>: it also claims the effective port; a claimed port has the name of its
  claimant, so the empty string means free.\<close>

definition validateServer ::
    "string \<Rightarrow> server_settings \<Rightarrow> int \<Rightarrow> (int \<rightharpoonup> string)
      \<Rightarrow> (int \<rightharpoonup> string) \<times> config_error list" where
  "validateServer prefix s defaultPort usedPorts =
     (let p = portOr s defaultPort;
          (used, errs) =
            (if ss_Port s < 0 \<or> ss_Port s > 65535 then (usedPorts, [InvalidPort prefix (ss_Port s)])
             else case usedPorts p of
                 Some other \<Rightarrow>
                   if other \<noteq> [] then (usedPorts, [PortInUse prefix p other]) else (usedPorts(p \<mapsto> prefix), [])
               | None \<Rightarrow> (usedPorts(p \<mapsto> prefix), []))
      in (used, errs @ validateDuration (prefix @ ''.read-timeout'') (ss_ReadTimeout s) @
            validateDuration (prefix @ ''.write-timeout'') (ss_WriteTimeout s)))"

fun validate_prefixes :: "nat \<Rightarrow> string list \<Rightarrow> config_error list" where
  "validate_prefixes i [] = []"
| "validate_prefixes i (s # ss) =
     (case parsePrefix s of None \<Rightarrow> [InvalidPrefix i s] | Some _ \<Rightarrow> []) @ validate_prefixes (Suc i) ss"

text \<open>\<open>Config.Validate\<close>: the errors, in order; none means valid.\<close>

definition Validate :: "(string \<Rightarrow> url option) \<Rightarrow> config \<Rightarrow> config_error list" where
  "Validate url_parse c =
     (let h = cfg_Health c;
          (used1, server1) = validateServer ''balancing.server''
            (bal_Server (cfg_Balancer c)) DefaultBalancerPort Map.empty;
          (used2, server2) = validateServer ''discovery.registry.server''
            (cfg_RegistryServer c) DefaultRegistryPort used1;
          (used3, server3) = validateServer ''observability.metrics.server''
            (cfg_MetricsServer c) DefaultMetricsPort used2
      in validate_strategy c @
         validate_backends url_parse 0 (cfg_Backends c) @
         validateDuration ''health.interval'' (hs_Interval h) @
         validateDuration ''health.client.timeout'' (hc_Timeout (hs_Client h)) @
         non_negative ''health.healthy-threshold'' (hs_HealthyThreshold h) @
         non_negative ''health.unhealthy-threshold'' (hs_UnhealthyThreshold h) @
         non_negative ''health.max-concurrent'' (hs_MaxConcurrent h) @
         server1 @ server2 @ server3 @
         non_negative ''balancing.max-retries'' (bal_MaxRetries (cfg_Balancer c)) @
         validate_prefixes 0 (ps_TrustedProxies (cfg_Proxy c)) @
         non_negative ''proxy.body-limit'' (ps_BodyLimit (cfg_Proxy c)))"

section \<open>Conversions\<close>

fun domain_backends :: "(string \<Rightarrow> url option) \<Rightarrow> (nat \<Rightarrow> string) \<Rightarrow> nat \<Rightarrow> backend_settings list \<Rightarrow> backend list" where
  "domain_backends url_parse uid i [] = []"
| "domain_backends url_parse uid i (b # bs) =
     (let u = url_parse (bs_URL b); w = (if bs_Weight b = 0 then 1 else bs_Weight b)
      in NewBackend (uid i) u w # domain_backends url_parse uid (Suc i) bs)"

definition DomainBackends :: "(string \<Rightarrow> url option) \<Rightarrow> (nat \<Rightarrow> string) \<Rightarrow> config \<Rightarrow> backend list" where
  "DomainBackends url_parse uid c = domain_backends url_parse uid 0 (cfg_Backends c)"

definition TrustedProxies :: "config \<Rightarrow> trusted_proxies" where
  "TrustedProxies c = List.map_filter parsePrefix (ps_TrustedProxies (cfg_Proxy c))"

definition ProxySelector :: "config \<Rightarrow> 'x balancer_env balancer" where
  "ProxySelector c =
     (let s = bal_Strategy (cfg_Balancer c)
      in if s = StrategyIPHash then ByClientIP Hash_get_for_key (TrustedProxies c)
         else if s = StrategyLeastConnections then Rotate LeastConnections_get
         else if s = StrategyRandom then Rotate Random_get
         else if s = StrategyRoundRobin then Rotate RoundRobin_get
         else Rotate RoundRobin_get)"

text \<open>A duration that is set but does not parse gives zero, as the ignored error does.\<close>

definition parsed_or :: "int \<Rightarrow> string \<Rightarrow> int" where
  "parsed_or def s =
     (if s \<noteq> [] then (case ParseDuration s of None \<Rightarrow> 0 | Some d \<Rightarrow> d) else def)"

definition HealthConfig :: "config \<Rightarrow> probe_config" where
  "HealthConfig c =
     \<lparr>Interval = parsed_or 0 (hs_Interval (cfg_Health c)),
      Timeout = parsed_or 0 (hc_Timeout (hs_Client (cfg_Health c))),
      ProbePath = hc_Path (hs_Client (cfg_Health c)),
      HealthyThreshold = hs_HealthyThreshold (cfg_Health c),
      UnhealthyThreshold = hs_UnhealthyThreshold (cfg_Health c),
      MaxConcurrent = hs_MaxConcurrent (cfg_Health c)\<rparr>"

record server_config =
  srv_Port :: int
  srv_ReadTimeout :: int
  srv_WriteTimeout :: int

definition serverConfig :: "server_settings \<Rightarrow> int \<Rightarrow> server_config" where
  "serverConfig s defaultPort =
     \<lparr>srv_Port = portOr s defaultPort,
      srv_ReadTimeout = parsed_or DefaultServerReadTimeout (ss_ReadTimeout s),
      srv_WriteTimeout = parsed_or DefaultServerWriteTimeout (ss_WriteTimeout s)\<rparr>"

definition BalancerConfig :: "config \<Rightarrow> server_config" where
  "BalancerConfig c = serverConfig (bal_Server (cfg_Balancer c)) DefaultBalancerPort"

definition RegistryConfig :: "config \<Rightarrow> server_config" where
  "RegistryConfig c = serverConfig (cfg_RegistryServer c) DefaultRegistryPort"

definition MetricsConfig :: "config \<Rightarrow> server_config" where
  "MetricsConfig c = serverConfig (cfg_MetricsServer c) DefaultMetricsPort"

definition ProxyBodyLimit :: "config \<Rightarrow> int" where
  "ProxyBodyLimit c =
     (if ps_BodyLimit (cfg_Proxy c) = 0 then DefaultProxyBodyLimit else ps_BodyLimit (cfg_Proxy c))"

section \<open>Loading\<close>

datatype load_error =
    ReadFailed string string
  | ParseFailed string string
  | InvalidConfiguration "config_error list"

text \<open>\<open>read_file\<close> and \<open>yaml\<close> stand for \<open>os.ReadFile\<close> and the YAML package, which give an error text or data.\<close>

definition Load ::
    "(string \<Rightarrow> string + string) \<Rightarrow> (string \<Rightarrow> string + config) \<Rightarrow> (string \<Rightarrow> url option)
      \<Rightarrow> string \<Rightarrow> load_error + config" where
  "Load read_file yaml url_parse path =
     (case read_file path of
        Inl e \<Rightarrow> Inl (ReadFailed path e)
      | Inr data \<Rightarrow>
          (case yaml data of
             Inl e \<Rightarrow> Inl (ParseFailed path e)
           | Inr cfg \<Rightarrow>
               (let errs = Validate url_parse cfg
                in if errs \<noteq> [] then Inl (InvalidConfiguration errs) else Inr cfg)))"

text \<open>
  \<open>loadConfig\<close>: \<open>flag\<close> is the value of the command line's \<open>-config\<close>, if it is given.  An error ends
  the process with the text around it.
\<close>

definition loadConfig ::
    "(string \<Rightarrow> string + string) \<Rightarrow> (string \<Rightarrow> string + config) \<Rightarrow> (string \<Rightarrow> url option)
      \<Rightarrow> string option \<Rightarrow> load_error + config" where
  "loadConfig read_file yaml url_parse flag =
     Load read_file yaml url_parse (case flag of None \<Rightarrow> ''config.yaml'' | Some path \<Rightarrow> path)"

definition RegistryToken :: "(string \<Rightarrow> string) \<Rightarrow> string" where
  "RegistryToken getenv = getenv ''GOLANCER_REGISTRY_TOKEN''"

lemma Load_valid: "Load rf yaml url_parse path = Inr cfg \<Longrightarrow> Validate url_parse cfg = []"
  by (auto simp: Load_def Let_def split: sum.splits if_splits)

section \<open>What validation accepts\<close>

definition backend_valid :: "(string \<Rightarrow> url option) \<Rightarrow> backend_settings \<Rightarrow> bool" where
  "backend_valid url_parse b \<longleftrightarrow>
     (\<exists>u. url_parse (bs_URL b) = Some u \<and> url_Scheme u \<in> {''http'', ''https''} \<and> url_Host u \<noteq> []) \<and>
     bs_Weight b \<le> MaxWeight"

definition duration_valid :: "string \<Rightarrow> bool" where
  "duration_valid s \<longleftrightarrow> s = [] \<or> (\<exists>d. ParseDuration s = Some d \<and> 0 \<le> d)"

definition server_valid :: "server_settings \<Rightarrow> bool" where
  "server_valid s \<longleftrightarrow> 0 \<le> ss_Port s \<and> ss_Port s \<le> 65535 \<and>
     duration_valid (ss_ReadTimeout s) \<and> duration_valid (ss_WriteTimeout s)"

definition config_valid :: "(string \<Rightarrow> url option) \<Rightarrow> config \<Rightarrow> bool" where
  "config_valid url_parse c \<longleftrightarrow>
     bal_Strategy (cfg_Balancer c) \<in> {''ip-hash'', ''least-connections'', ''random'', ''round-robin'', []} \<and>
     list_all (backend_valid url_parse) (cfg_Backends c) \<and>
     duration_valid (hs_Interval (cfg_Health c)) \<and> duration_valid (hc_Timeout (hs_Client (cfg_Health c))) \<and>
     0 \<le> hs_HealthyThreshold (cfg_Health c) \<and> 0 \<le> hs_UnhealthyThreshold (cfg_Health c) \<and>
     0 \<le> hs_MaxConcurrent (cfg_Health c) \<and>
     server_valid (bal_Server (cfg_Balancer c)) \<and> server_valid (cfg_RegistryServer c) \<and>
     server_valid (cfg_MetricsServer c) \<and>
     distinct [portOr (bal_Server (cfg_Balancer c)) 8080, portOr (cfg_RegistryServer c) 8081,
       portOr (cfg_MetricsServer c) 2112] \<and>
     0 \<le> bal_MaxRetries (cfg_Balancer c) \<and>
     list_all (\<lambda>s. parsePrefix s \<noteq> None) (ps_TrustedProxies (cfg_Proxy c)) \<and>
     0 \<le> ps_BodyLimit (cfg_Proxy c)"

lemma validate_backends_iff:
  "validate_backends url_parse i bs = [] \<longleftrightarrow> list_all (backend_valid url_parse) bs"
  by (induction bs arbitrary: i) (auto simp: backend_valid_def split: option.splits)

lemma validateDuration_iff: "validateDuration field s = [] \<longleftrightarrow> duration_valid s"
  by (auto simp: validateDuration_def duration_valid_def split: option.splits)

lemma non_negative_iff: "non_negative field n = [] \<longleftrightarrow> 0 \<le> n"
  by (simp add: non_negative_def)

lemma validate_prefixes_iff:
  "validate_prefixes i ss = [] \<longleftrightarrow> list_all (\<lambda>s. parsePrefix s \<noteq> None) ss"
  by (induction ss arbitrary: i) (auto split: option.splits)

lemma validateServer_iff:
  assumes "\<And>p. usedPorts p \<noteq> Some []" and "validateServer prefix s def usedPorts = (used, errs)"
  shows "errs = [] \<longleftrightarrow> server_valid s \<and> usedPorts (portOr s def) = None"
    and "errs = [] \<Longrightarrow> used = usedPorts(portOr s def \<mapsto> prefix)"
  using assms
  by (auto simp: validateServer_def Let_def server_valid_def validateDuration_iff
      split: if_splits option.splits prod.splits)

lemmas validate_iffs = validate_backends_iff validateDuration_iff non_negative_iff validate_prefixes_iff

lemma Validate_valid: "Validate url_parse c = [] \<longleftrightarrow> config_valid url_parse c"
proof -
  obtain u1 e1 where 1: "validateServer ''balancing.server'' (bal_Server (cfg_Balancer c)) DefaultBalancerPort
      Map.empty = (u1, e1)" by fastforce
  obtain u2 e2 where 2: "validateServer ''discovery.registry.server'' (cfg_RegistryServer c)
      DefaultRegistryPort u1 = (u2, e2)" by fastforce
  obtain u3 e3 where 3: "validateServer ''observability.metrics.server'' (cfg_MetricsServer c)
      DefaultMetricsPort u2 = (u3, e3)" by fastforce
  let ?p1 = "portOr (bal_Server (cfg_Balancer c)) 8080" and ?p2 = "portOr (cfg_RegistryServer c) 8081"
    and ?p3 = "portOr (cfg_MetricsServer c) 2112"
  note defaults = DefaultBalancerPort_def DefaultRegistryPort_def DefaultMetricsPort_def
  from validateServer_iff [OF _ 1] have s1: "e1 = [] \<longleftrightarrow> server_valid (bal_Server (cfg_Balancer c))"
    and u1: "e1 = [] \<Longrightarrow> u1 = [?p1 \<mapsto> ''balancing.server'']" by (simp_all add: defaults)
  have s2: "e1 = [] \<Longrightarrow> e2 = [] \<longleftrightarrow> server_valid (cfg_RegistryServer c) \<and> ?p1 \<noteq> ?p2"
    and u2: "e1 = [] \<Longrightarrow> e2 = [] \<Longrightarrow>
      u2 = [?p1 \<mapsto> ''balancing.server'', ?p2 \<mapsto> ''discovery.registry.server'']"
    using validateServer_iff [OF _ 2] u1 by (auto simp: defaults)
  have s3: "e1 = [] \<Longrightarrow> e2 = [] \<Longrightarrow> e3 = [] \<longleftrightarrow> server_valid (cfg_MetricsServer c) \<and> ?p1 \<noteq> ?p3 \<and> ?p2 \<noteq> ?p3"
    using validateServer_iff(1) [OF _ 3] u2 by (auto simp: defaults)
  have "validate_strategy c = [] \<longleftrightarrow>
      bal_Strategy (cfg_Balancer c) \<in> {''ip-hash'', ''least-connections'', ''random'', ''round-robin'', []}"
    by (simp add: validate_strategy_def strategy_defs Let_def)
  with s1 s2 s3 show ?thesis
    by (auto simp: Validate_def 1 2 3 Let_def validate_iffs config_valid_def)
qed

section \<open>What the conversions make of a valid configuration\<close>

lemma domain_backends_nth:
  "k < length bs \<Longrightarrow> domain_backends url_parse uid i bs ! k =
     NewBackend (uid (i + k)) (url_parse (bs_URL (bs ! k))) (if bs_Weight (bs ! k) = 0 then 1 else bs_Weight (bs ! k))"
  by (induction bs arbitrary: i k) (auto simp: nth_Cons Let_def split: nat.splits)

lemma length_domain_backends [simp]: "length (domain_backends url_parse uid i bs) = length bs"
  by (induction bs arbitrary: i) (simp_all add: Let_def)

lemma DomainBackends_member:
  assumes "b \<in> set (DomainBackends url_parse uid c)"
  obtains k where "k < length (cfg_Backends c)" "InstanceID b = uid k" "healthy b = False"
    "URL b = url_parse (bs_URL (cfg_Backends c ! k))"
    "Weight b = (if bs_Weight (cfg_Backends c ! k) = 0 then 1 else bs_Weight (cfg_Backends c ! k))"
  using assms domain_backends_nth [of _ "cfg_Backends c" url_parse uid 0]
  by (auto simp: DomainBackends_def in_set_conv_nth)

lemma DomainBackends_ids: "map InstanceID (DomainBackends url_parse uid c) = map uid [0..<length (cfg_Backends c)]"
  by (rule nth_equalityI) (simp_all add: DomainBackends_def domain_backends_nth)

lemma one_weight_ok: "weight_ok b \<longleftrightarrow> Weight b \<noteq> 0 \<and> Weight b \<le> MaxWeight"
  by (rule weight_ok_word)

lemma map_filter_full: "list_all (\<lambda>x. f x \<noteq> None) xs \<Longrightarrow> length (List.map_filter f xs) = length xs"
  by (induction xs) (auto simp: List.map_filter_simps)

lemma DomainBackends_valid:
  assumes "config_valid url_parse c" and "b \<in> set (DomainBackends url_parse uid c)"
  shows "weight_ok b" and "\<not> Healthy b"
    and "\<exists>u. URL b = Some u \<and> url_Scheme u \<in> {''http'', ''https''} \<and> url_Host u \<noteq> []"
proof -
  from assms(2) obtain k where k: "k < length (cfg_Backends c)" "healthy b = False"
    "URL b = url_parse (bs_URL (cfg_Backends c ! k))"
    "Weight b = (if bs_Weight (cfg_Backends c ! k) = 0 then 1 else bs_Weight (cfg_Backends c ! k))"
    by (rule DomainBackends_member)
  from assms(1) k(1) have v: "backend_valid url_parse (cfg_Backends c ! k)"
    by (simp add: config_valid_def list_all_length)
  with k show "weight_ok b" by (auto simp: weight_ok_word backend_valid_def MaxWeight_def)
  from k show "\<not> Healthy b" by (simp add: Healthy_def)
  from v k show "\<exists>u. URL b = Some u \<and> url_Scheme u \<in> {''http'', ''https''} \<and> url_Host u \<noteq> []"
    by (simp add: backend_valid_def)
qed

lemma boot_DomainBackends:
  assumes "config_valid url_parse c" and "inj uid" and "length (cfg_Backends c) < 2 ^ 32"
  shows "reg_ok (boot (DomainBackends url_parse uid c))" and "sel_ok (boot (DomainBackends url_parse uid c))"
    and "rr_ok (boot (DomainBackends url_parse uid c))"
    and "ListHealthyBackends (boot (DomainBackends url_parse uid c)) = []"
proof -
  let ?bs = "DomainBackends url_parse uid c"
  have len: "length ?bs = length (cfg_Backends c)" by (simp add: DomainBackends_def)
  have ids: "distinct (map InstanceID ?bs)"
    unfolding DomainBackends_ids using assms(2) by (simp add: distinct_map inj_on_def)
  show "reg_ok (boot ?bs)"
    using DomainBackends_valid(3) [OF assms(1)] ids by (fastforce simp: reg_ok_def boot_facts)
  show "sel_ok (boot ?bs)"
    using DomainBackends_valid(1) [OF assms(1)] assms(3) len by (intro sel_ok_boot) auto
  have "length (listed (boot ?bs)) = length ?bs" by (metis boot_facts(1) abs_reg_def length_map)
  with assms(3) len show "rr_ok (boot ?bs)" by (simp add: rr_ok_def boot_facts(2))
  have "filter Healthy (abs_reg (boot ?bs)) = []"
    using DomainBackends_valid(2) [OF assms(1)] by (simp add: boot_facts filter_empty_conv)
  then show "ListHealthyBackends (boot ?bs) = []" by (metis map_cells_healthy map_is_Nil_conv)
qed

text \<open>Durations as Go holds them, in a signed 64-bit integer, and not negative.\<close>

definition duration_ok :: "int \<Rightarrow> bool" where
  "duration_ok d \<longleftrightarrow> 0 \<le> d \<and> d < 2 ^ 63"

lemma parsed_or_valid: "duration_valid s \<Longrightarrow> duration_ok def \<Longrightarrow> duration_ok (parsed_or def s)"
  using ParseDuration_range [of s] by (auto simp: duration_valid_def parsed_or_def duration_ok_def)

lemma serverConfig_valid:
  "server_valid s \<Longrightarrow> duration_ok (srv_ReadTimeout (serverConfig s p)) \<and> duration_ok (srv_WriteTimeout (serverConfig s p))"
  by (auto simp: server_valid_def serverConfig_def DefaultServerReadTimeout_def DefaultServerWriteTimeout_def
      duration_ok_def [of "5000000000"] duration_ok_def [of "10000000000"] intro!: parsed_or_valid)

lemma withDefaults_positive:
  "duration_ok (Interval p) \<Longrightarrow> 0 < Interval (withDefaults p) \<and> Interval (withDefaults p) < 2 ^ 63"
  "duration_ok (Timeout p) \<Longrightarrow> 0 < Timeout (withDefaults p) \<and> Timeout (withDefaults p) < 2 ^ 63"
  "0 \<le> HealthyThreshold p \<Longrightarrow> 0 \<le> UnhealthyThreshold p \<Longrightarrow> thresholds_ok (withDefaults p)"
  by (auto simp: withDefaults_def Let_def thresholds_ok_def duration_ok_def)

lemma valid_ports:
  assumes "config_valid url_parse c"
  shows "distinct [srv_Port (BalancerConfig c), srv_Port (RegistryConfig c), srv_Port (MetricsConfig c)]"
    and "list_all (\<lambda>n. 1 \<le> n \<and> n \<le> 65535)
      [srv_Port (BalancerConfig c), srv_Port (RegistryConfig c), srv_Port (MetricsConfig c)]"
  using assms
  by (auto simp: config_valid_def server_valid_def portOr_def BalancerConfig_def RegistryConfig_def
      MetricsConfig_def serverConfig_def DefaultBalancerPort_def DefaultRegistryPort_def
      DefaultMetricsPort_def split: if_splits)

section \<open>The configured balancer\<close>

lemma ProxySelector_cases:
  "ProxySelector c = ByClientIP Hash_get_for_key (TrustedProxies c) \<or> ProxySelector c = Rotate LeastConnections_get \<or>
   ProxySelector c = Rotate Random_get \<or> ProxySelector c = Rotate RoundRobin_get"
  by (simp add: ProxySelector_def Let_def)

interpretation cfg_balancer: pool_balancer "\<lambda>w. sel_ok w \<and> rr_ok w" "\<lambda>e w. no_wrap (current e) w \<and> rng_ok e w"
    "ProxySelector c" for c
proof unfold_locales
  fix w :: world and e :: "'x balancer_env" and r :: request
  have strategies: "(ProxySelector c :: 'x balancer_env balancer) = ByClientIP Hash_get_for_key (TrustedProxies c) \<or>
      (ProxySelector c :: 'x balancer_env balancer) = Rotate LeastConnections_get \<or>
      (ProxySelector c :: 'x balancer_env balancer) = Rotate Random_get \<or>
      (ProxySelector c :: 'x balancer_env balancer) = Rotate RoundRobin_get"
    by (rule ProxySelector_cases)
  show "snd (ProxySelector c r w e) = Ret (Inl ErrNoBackends)"
    if "sel_ok w \<and> rr_ok w" "ListHealthyBackends w = []"
    using strategies that
    by (elim disjE) (simp_all add: hsh_balancer.pick_none lcs_balancer.pick_none rnd_balancer.pick_none
      rr_balancer.pick_none)
  show "\<exists>p\<in>set (ListHealthyBackends w). snd (ProxySelector c r w e) = Ret (Inr p)"
    if "sel_ok w \<and> rr_ok w" "no_wrap (current e) w \<and> rng_ok e w" "ListHealthyBackends w \<noteq> []"
    using strategies that
    by (elim disjE) (simp_all add: hsh_balancer.pick_some lcs_balancer.pick_some rnd_balancer.pick_some
      rr_balancer.pick_some)
qed

text \<open>A readable request to the configured balancer: the 503 for an empty pool, else an attempt.\<close>

lemma configured_balancer_run:
  assumes "sel_ok (pool s)" and "rr_ok (pool s)" and "sendable (pool s)"
    and "no_wrap (current (env s)) (pool s)" and "rng_ok (env s) (pool s)"
    and "readable r" and "0 \<le> maxRetriesFor h r"
    and "ServeHTTP h (ProxySelector c) rt (\<lambda>_. False) r s = (s', res)"
  shows "if ListHealthyBackends (pool s) = []
    then res = Ret (Replied no_backends_reply) \<and> history s' = history s
    else \<exists>a new. history s' = history s @ a # new \<and> att_target a \<in> set (ListHealthyBackends (pool s))"
proof -
  from ServeHTTP_readable [OF assms(8,6)] obtain r' where
    run: "serve_run h (ProxySelector c) rt (\<lambda>_. False) 0 r' s s' res" and r': "rewindable r'" "Method r' = Method r" .
  from assms(7) maxRetriesFor_cong [OF r'(2)] have m: "0 \<le> maxRetriesFor h r'" by simp
  from r'(1) have g: "\<And>err. GetBody r' \<noteq> Some (Inl err)" by (simp add: rewindable_def)
  show ?thesis
  proof (cases "ListHealthyBackends (pool s) = []")
    case True
    with cfg_balancer.serve_empty_pool [OF _ True _ m g run] assms(1,2) show ?thesis by simp
  next
    case False
    with cfg_balancer.serve_first_attempt [OF _ _ False _ m g sendable_member [OF assms(3)] run] assms(1,2,4,5)
    show ?thesis by simp
  qed
qed

section \<open>IPv4 networks written in IPv6 form\<close>

lemma Unmap_not_4In6: "\<not> Is4In6 (Unmap ip)"
  by (cases ip) auto

lemma peerIP_not_4In6: "\<not> Is4In6 (peerIP r)"
  by (simp add: peerIP_def Unmap_not_4In6 split: option.splits)

text \<open>An address inside a prefix of at least 96 bits agrees with it on the first 96.\<close>

lemma Contains_upper96:
  assumes "Contains (Prefix (V6 p z) (Some b)) (V6 a z')" and "96 \<le> b" and "b \<le> 128"
  shows "drop_bit 32 a = drop_bit 32 p"
proof -
  have "drop_bit 32 (a XOR p) = drop_bit (32 - (128 - b)) (drop_bit (128 - b) (a XOR p))"
    using assms(2,3) by (simp add: drop_bit_drop_bit)
  with assms(1) have "drop_bit 32 (a XOR p) = 0" by simp
  then have "drop_bit 32 a XOR drop_bit 32 p = 0" by (simp add: drop_bit_xor)
  moreover have "(drop_bit 32 a XOR drop_bit 32 p) XOR drop_bit 32 p = drop_bit 32 a"
    by (simp add: xor.assoc)
  ultimately show ?thesis by simp
qed

section \<open>Properties\<close>

text \<open>
  C27. Validation accepts exactly the configurations it documents: a known strategy or none, http
  or https backend URLs with a host and weights up to the maximum, durations that parse and are
  not negative, ports in range that differ after defaulting, and no negative count.
\<close>

theorem validate_iff_valid: "Validate url_parse c = [] \<longleftrightarrow> config_valid url_parse c"
  by (rule Validate_valid)

text \<open>
  C14. What a valid configuration gives the program at startup: a well-formed registry with
  distinct identifiers and weights the selectors are proved for, none of it routable before
  the first probe; thresholds of at least one; durations that are not negative and fit the 64 bits
  Go has for them, the prober's not zero either; three different listening ports in range; every trusted proxy kept; a positive body limit; a retry count that is not
  negative.
\<close>

theorem validated_startup:
  assumes "Validate url_parse c = []" and "inj uid" and "length (cfg_Backends c) < 2 ^ 32"
  shows "let w = boot (DomainBackends url_parse uid c); p = withDefaults (HealthConfig c);
      ports = map srv_Port [BalancerConfig c, RegistryConfig c, MetricsConfig c]
    in reg_ok w \<and> sel_ok w \<and> rr_ok w \<and> sendable w \<and> ListHealthyBackends w = []
      \<and> thresholds_ok p \<and> 0 < Interval p \<and> Interval p < 2 ^ 63 \<and> 0 < Timeout p \<and> Timeout p < 2 ^ 63
      \<and> list_all (\<lambda>srv. duration_ok (srv_ReadTimeout srv) \<and> duration_ok (srv_WriteTimeout srv))
           [BalancerConfig c, RegistryConfig c, MetricsConfig c]
      \<and> distinct ports \<and> list_all (\<lambda>n. 1 \<le> n \<and> n \<le> 65535) ports
      \<and> length (TrustedProxies c) = length (ps_TrustedProxies (cfg_Proxy c))
      \<and> 1 \<le> ProxyBodyLimit c \<and> 0 \<le> bal_MaxRetries (cfg_Balancer c)"
proof -
  from assms(1) have v: "config_valid url_parse c" by (simp add: Validate_valid)
  note boot = boot_DomainBackends [OF v assms(2,3)]
  have h: "duration_ok (Interval (HealthConfig c))" "duration_ok (Timeout (HealthConfig c))"
    "0 \<le> HealthyThreshold (HealthConfig c)" "0 \<le> UnhealthyThreshold (HealthConfig c)"
    using v by (simp_all add: config_valid_def HealthConfig_def parsed_or_valid duration_ok_def [of 0])
  note p = withDefaults_positive(1) [OF h(1)] withDefaults_positive(2) [OF h(2)]
    withDefaults_positive(3) [OF h(3,4)]
  note ports = valid_ports [OF v]
  have "length (TrustedProxies c) = length (ps_TrustedProxies (cfg_Proxy c))"
    using v by (simp add: TrustedProxies_def config_valid_def map_filter_full)
  moreover have "1 \<le> ProxyBodyLimit c" "0 \<le> bal_MaxRetries (cfg_Balancer c)"
    using v by (simp_all add: config_valid_def ProxyBodyLimit_def DefaultProxyBodyLimit_def)
  moreover have "list_all (\<lambda>srv. duration_ok (srv_ReadTimeout srv) \<and> duration_ok (srv_WriteTimeout srv))
      [BalancerConfig c, RegistryConfig c, MetricsConfig c]"
    using v by (simp add: config_valid_def BalancerConfig_def RegistryConfig_def MetricsConfig_def serverConfig_valid)
  ultimately show ?thesis using boot reg_ok_sendable [OF boot(1)] p ports by (simp add: Let_def)
qed

definition sample_url :: "string \<Rightarrow> url option" where
  "sample_url s = (if s = ''http://svc:80'' then Some (mk_url ''http'' ''svc:80'' []) else None)"

definition default_server :: server_settings where
  "default_server = \<lparr>ss_Port = 0, ss_ReadTimeout = [], ss_WriteTimeout = []\<rparr>"

text \<open>A configuration with the given backends, trusted proxies and strategy, else all defaults.\<close>

definition sample_config :: "backend_settings list \<Rightarrow> string list \<Rightarrow> string \<Rightarrow> config" where
  "sample_config bs ps strategy =
     \<lparr>cfg_Backends = bs,
      cfg_Balancer = \<lparr>bal_Strategy = strategy, bal_MaxRetries = 2, bal_Server = default_server\<rparr>,
      cfg_Health = \<lparr>hs_Interval = [], hs_HealthyThreshold = 0, hs_UnhealthyThreshold = 0,
        hs_MaxConcurrent = 0, hs_Client = \<lparr>hc_Timeout = [], hc_Path = []\<rparr>\<rparr>,
      cfg_Discovery = \<lparr>ds_Mode = [], ds_Registry = \<lparr>rs_Server = default_server\<rparr>\<rparr>,
      cfg_Observability = \<lparr>os_Metrics = \<lparr>ms_Server = default_server\<rparr>\<rparr>,
      cfg_Proxy = \<lparr>ps_BodyLimit = 0, ps_TrustedProxies = ps\<rparr>\<rparr>"

definition svc_settings :: backend_settings where
  "svc_settings = \<lparr>bs_URL = ''http://svc:80'', bs_Weight = 0\<rparr>"

lemma sample_config_valid: "config_valid sample_url (sample_config [svc_settings] [''10.0.0.9''] ''ip-hash'')"
  by (simp add: config_valid_def sample_config_def backend_valid_def svc_settings_def sample_url_def
      mk_url_def duration_valid_def server_valid_def default_server_def portOr_def parsePrefix_def sample_parse)

lemma nat_ids_inj: "inj (\<lambda>n. replicate n CHR ''x'')"
  by (rule injI) (metis length_replicate)

lemma validated_startup_witness:
  "thresholds_ok (withDefaults (HealthConfig (sample_config [svc_settings] [''10.0.0.9''] ''ip-hash''))) \<and>
   length (TrustedProxies (sample_config [svc_settings] [''10.0.0.9''] ''ip-hash'')) = 1"
proof -
  have "Validate sample_url (sample_config [svc_settings] [''10.0.0.9''] ''ip-hash'') = []"
    using sample_config_valid by (simp add: Validate_valid)
  from validated_startup [OF this nat_ids_inj] show ?thesis
    by (simp add: Let_def sample_config_def)
qed

text \<open>
  C28. Durations mean what is written.  A setting that is a sequence of whole numbers with units, of
  less than 2^63 nanoseconds in all, is accepted and reaches the prober and the servers at that
  length; only a probe interval or timeout of zero is replaced by its default, while a server's
  timeout of zero stays zero, which is no timeout.  With a minus sign it is refused as negative,
  and a single number that does not fit is refused as invalid.
\<close>

theorem durations_read:
  assumes "known_units parts" and "parts \<noteq> []" and "nanoseconds parts < 2 ^ 63"
  shows "let text = print_duration parts; d = int (nanoseconds parts);
      h = withDefaults (HealthConfig (c\<lparr>cfg_Health := (cfg_Health c)
        \<lparr>hs_Interval := text, hs_Client := (hs_Client (cfg_Health c))\<lparr>hc_Timeout := text\<rparr>\<rparr>\<rparr>));
      srv = serverConfig (s\<lparr>ss_ReadTimeout := text, ss_WriteTimeout := text\<rparr>) defaultPort
    in validateDuration field text = [] \<and>
      validateDuration field (CHR ''-'' # text) = (if d = 0 then [] else [NegativeDuration field (CHR ''-'' # text)]) \<and>
      Interval h = (if d = 0 then 5 * 10 ^ 9 else d) \<and> Timeout h = (if d = 0 then 2 * 10 ^ 9 else d) \<and>
      srv_ReadTimeout srv = d \<and> srv_WriteTimeout srv = d \<and>
      (\<forall>n u k. unitMap u = Some k \<and> 2 ^ 63 \<le> n * k \<longrightarrow>
         validateDuration field (dec n @ u) = [InvalidDuration field (dec n @ u)])"
proof -
  note p = ParseDuration_print [OF assms]
  then have ne: "print_duration parts \<noteq> []" by (auto simp: ParseDuration_def)
  with p show ?thesis
    by (auto simp: Let_def validateDuration_def HealthConfig_def parsed_or_def withDefaults_def serverConfig_def
        ParseDuration_overflow)
qed

lemma durations_read_witness:
  "validateDuration ''health.interval'' ''1m30s'' = [] \<and>
   srv_ReadTimeout (serverConfig (default_server\<lparr>ss_ReadTimeout := ''1m30s'', ss_WriteTimeout := ''1m30s''\<rparr>) 80) = 90 * 10 ^ 9"
proof -
  let ?parts = "[(1, ''m''), (30, ''s'')]"
  have facts: "print_duration ?parts = ''1m30s''" "known_units ?parts" "nanoseconds ?parts = 90 * 10 ^ 9"
    by (simp_all add: print_duration_def known_units_def nanoseconds_def unitMap_def dec.simps hex_digit_def)
  have "?parts \<noteq> []" "nanoseconds ?parts < 2 ^ 63" unfolding facts(3) by simp_all
  from durations_read [OF facts(2) this, where s = default_server and defaultPort = 80 and field = "''health.interval''"]
  show ?thesis unfolding facts by (simp add: Let_def)
qed

text \<open>
  C39. A trusted proxy given as an IPv4 network in IPv6 form is accepted and then never matches:
  peers are unmapped to IPv4 before the test and the prefix is not, so no peer whatsoever is
  inside it.
\<close>

theorem mapped_network_never_matches:
  assumes "parsePrefix s = Some (Prefix (V6 a z) (Some b))" and "Is4In6 (V6 a z)" and "96 \<le> b" and "b \<le> 128"
  shows "\<not> trusted_contains [Prefix (V6 a z) (Some b)] (peerIP r)"
proof (cases "peerIP r")
  case (V6 x zx)
  show ?thesis
  proof
    assume "trusted_contains [Prefix (V6 a z) (Some b)] (peerIP r)"
    with V6 have "Contains (Prefix (V6 a z) (Some b)) (V6 x zx)" by (simp add: trusted_contains_def)
    from Contains_upper96 [OF this assms(3,4)] assms(2) have "Is4In6 (V6 x zx)" by simp
    with peerIP_not_4In6 [of r] V6 show False by simp
  qed
qed (simp_all add: trusted_contains_def)

lemma horner_zeros: "((\<lambda>acc. acc * 65536) ^^ n) (0::nat) = 0"
  by (induction n) simp_all

lemma sample_parse6: "parseIPv6 ''::ffff:a00:0'' = Some (V6 0xffff0a000000 [])"
proof -
  have hex: "hex_value CHR ''f'' = Some 15" "hex_value CHR ''a'' = Some 10" "hex_value CHR ''0'' = Some 0"
    "hex_value CHR '':'' = None"
    by (simp_all add: hex_value_def code_in_def)
  have run: "parse6_loop (Suc (Suc (Suc k))) ''ffff:a00:0'' [] (Some 0) = Some ([65535, 2560, 0], Some 0, [])" for k
    by (simp add: hex horner_def Let_def)
  have eight: "Suc (Suc (Suc 5)) = 8" by simp
  note loop = run [of 5, unfolded eight]
  show ?thesis by (simp add: parseIPv6_def loop expand6_def horner_def horner_zeros)
qed

lemma mapped_network_never_matches_witness:
  "\<not> trusted_contains [Prefix (V6 0xffff0a000000 []) (Some 104)] (peerIP (sample_request ''10.0.0.9:5'' []))"
proof (rule mapped_network_never_matches)
  have "ParsePrefix ''::ffff:a00:0/104'' = Some (Prefix (V6 0xffff0a000000 []) (Some 104))"
    by (simp add: ParsePrefix_def last_index_def ParseAddr_def sample_parse6 digit_value_def code_in_def
        PrefixFrom_def)
  then show "parsePrefix ''::ffff:a00:0/104'' = Some (Prefix (V6 0xffff0a000000 []) (Some 104))"
    by (simp add: parsePrefix_def mask_numeral)
qed simp_all

end
