(* ===== verification/Handlers.thy ===== *)
theory Handlers
  imports HttpTypes ReverseProxy Registry
begin

text \<open>
  The package \<open>internal/handlers\<close>: the management API (backends.go) and the balancer's own
  health endpoints (health.go).  Decoding is split as in \<open>encoding/json\<close>: the parser of the
  text is the parameter \<open>json_decode\<close>, which reads the body and returns an error text or the
  first JSON value in it; storing a value into \<open>RegisterBackendRequest\<close> is modelled.
  \<open>url_parse\<close> stands for \<open>url.Parse\<close> and \<open>errtext\<close> for how an error prints.
\<close>

section \<open>Decoding a registration\<close>

record register_request =
  rr_URL :: string
  rr_Weight :: u64

datatype parse_error =
    DecodeError string
  | WrongType string
  | BadURL string
  | RelativeURL string
  | BadScheme string
  | WeightExceeds u64

definition field_is :: "string \<Rightarrow> string \<Rightarrow> bool" where
  "field_is name key \<longleftrightarrow> map lower key = name"

text \<open>
  One member of the object: unknown names are skipped, null leaves the field alone, a value of
  the wrong type or range is remembered as the error while decoding goes on.
\<close>

definition decode_member ::
    "register_request \<times> parse_error option \<Rightarrow> string \<times> json \<Rightarrow> register_request \<times> parse_error option" where
  "decode_member acc kv =
     (case acc of (req, err) \<Rightarrow> (case kv of (k, v) \<Rightarrow>
        if field_is ''url'' k then
          (case v of
             JString s \<Rightarrow> (req\<lparr>rr_URL := s\<rparr>, err)
           | JNull \<Rightarrow> (req, err)
           | _ \<Rightarrow> (req, if err = None then Some (WrongType k) else err))
        else if field_is ''weight'' k then
          (case v of
             JNumber n \<Rightarrow>
               if 0 \<le> n \<and> n < 2 ^ 64 then (req\<lparr>rr_Weight := word_of_int n\<rparr>, err)
               else (req, if err = None then Some (WrongType k) else err)
           | JNull \<Rightarrow> (req, err)
           | _ \<Rightarrow> (req, if err = None then Some (WrongType k) else err))
        else (req, err)))"

definition decode_request :: "json \<Rightarrow> parse_error + register_request" where
  "decode_request v =
     (case v of
        JObject kvs \<Rightarrow>
          (case foldl decode_member (\<lparr>rr_URL = [], rr_Weight = 0\<rparr>, None) kvs of
             (req, None) \<Rightarrow> Inr req
           | (req, Some err) \<Rightarrow> Inl err)
      | JNull \<Rightarrow> Inr \<lparr>rr_URL = [], rr_Weight = 0\<rparr>
      | _ \<Rightarrow> Inl (WrongType []))"

definition parseRegisterBackendReq ::
    "(reader \<Rightarrow> string + json) \<Rightarrow> (string \<Rightarrow> url option) \<Rightarrow> reader \<Rightarrow> parse_error + (url \<times> u64)" where
  "parseRegisterBackendReq json_decode url_parse body =
     (case json_decode body of
        Inl e \<Rightarrow> Inl (DecodeError e)
      | Inr v \<Rightarrow>
          (case decode_request v of
             Inl e \<Rightarrow> Inl e
           | Inr req \<Rightarrow>
               (case url_parse (rr_URL req) of
                  None \<Rightarrow> Inl (BadURL (rr_URL req))
                | Some u \<Rightarrow>
                    if url_Scheme u = [] \<or> url_Host u = [] then Inl (RelativeURL (rr_URL req))
                    else if url_Scheme u \<noteq> ''http'' \<and> url_Scheme u \<noteq> ''https'' then Inl (BadScheme (rr_URL req))
                    else
                      (let weight = (if rr_Weight req = 0 then 1 else rr_Weight req)
                       in if weight > MaxWeight then Inl (WeightExceeds weight) else Inr (u, weight)))))"

section \<open>The management API\<close>

text \<open>A nil body panics on its deferred \<open>Close\<close>; the server never passes one.\<close>

definition register ::
    "(reader \<Rightarrow> string + json) \<Rightarrow> (string \<Rightarrow> url option) \<Rightarrow> (parse_error \<Rightarrow> string) \<Rightarrow> (nat \<Rightarrow> nat) \<Rightarrow> string
      \<Rightarrow> request \<Rightarrow> world \<Rightarrow> (world \<times> response) go" where
  "register json_decode url_parse errtext grow uid r w =
     (case Body r of
        None \<Rightarrow> Panic NilDereference
      | Some body \<Rightarrow>
          (case parseRegisterBackendReq json_decode url_parse body of
             Inl e \<Rightarrow> Ret (w, http_Error (errtext e) 400)
           | Inr (u, weight) \<Rightarrow>
               go_bind (AddNewBackend grow uid u weight w) (\<lambda>(w', res).
                 case res of
                   Inl msg \<Rightarrow> Ret (w', http_Error msg 409)
                 | Inr i \<Rightarrow> Ret (w', json_response 201 (JObject [(''instanceID'', JString i)])))))"

text \<open>The nil slice of a registry without content encodes as null.\<close>

definition list_handler :: "world \<Rightarrow> response" where
  "list_handler w =
     json_response 200 (JObject [(''backends'',
       case backends w of None \<Rightarrow> JNull | Some s \<Rightarrow> JArray (map (\<lambda>p. MarshalJSON (cells w p)) (listed w)))])"

definition deregister :: "(nat \<Rightarrow> nat) \<Rightarrow> request \<Rightarrow> world \<Rightarrow> (world \<times> response) go" where
  "deregister grow r w =
     (let target = PathInstanceID r
      in if target = [] then Ret (w, http_Error ''instanceID must be provided'' 400)
         else go_bind (RemoveInstanceByID grow target w) (\<lambda>(w', ok).
           if \<not> ok then Ret (w', http_Error (''backend with instanceID '' @ target @ '' not found'') 404)
           else Ret (w', \<lparr>Status = 200, RespHeader = Map.empty, RespBody = Raw []\<rparr>)))"

section \<open>The health endpoints\<close>

definition writeJSON :: "nat \<Rightarrow> (string \<times> json) list \<Rightarrow> response" where
  "writeJSON status v = json_response status (JObject v)"

definition healthz :: "world \<Rightarrow> response" where
  "healthz w = writeJSON 200 [(''status'', JString ''ok'')]"

text \<open>Map keys are encoded in order.\<close>

definition readyz :: "world \<Rightarrow> response" where
  "readyz w =
     (let n = length (ListHealthyBackends w);
          (status, label) = (if n = 0 then (503, ''unavailable'') else (200, ''ready''))
      in writeJSON status [(''healthyBackends'', JNumber (int n)), (''status'', JString label)])"

section \<open>Facts\<close>

text \<open>What passes the parser: an absolute http or https URL and a weight the selectors allow.\<close>

lemma parse_accepts:
  assumes "parseRegisterBackendReq json_decode url_parse body = Inr (u, wt)"
  shows "url_Scheme u \<in> {''http'', ''https''}" and "url_Host u \<noteq> []"
    and "1 \<le> unat wt" and "unat wt \<le> 1000000"
proof -
  from assms have facts: "url_Scheme u \<in> {''http'', ''https''}" "url_Host u \<noteq> []" "wt \<noteq> 0" "wt \<le> MaxWeight"
    by (auto simp: parseRegisterBackendReq_def Let_def split: sum.splits option.splits if_splits)
  then show "url_Scheme u \<in> {''http'', ''https''}" "url_Host u \<noteq> []" by simp_all
  have "weight_ok (NewBackend [] None wt)" using facts by (simp add: weight_ok_word)
  then show "1 \<le> unat wt" "unat wt \<le> 1000000" by (simp_all add: weight_ok_def)
qed

text \<open>The pool invariants the API maintains.\<close>

definition pool_ok :: "world \<Rightarrow> bool" where
  "pool_ok w \<longleftrightarrow> reg_ok w \<and> weights_ok w \<and>
     (\<forall>b\<in>set (abs_reg w). \<exists>u. URL b = Some u \<and> url_Scheme u \<in> {''http'', ''https''} \<and> url_Host u \<noteq> [])"

text \<open>Every way a registration can end.\<close>

lemma register_cases:
  assumes "reg_ok w" and "uid \<notin> InstanceID ` set (abs_reg w)" and "Body r = Some body"
  obtains (refused) e where "parseRegisterBackendReq json_decode url_parse body = Inl e"
      "register json_decode url_parse errtext grow uid r w = Ret (w, http_Error (errtext e) 400)"
  | (conflict) u wt w' where "parseRegisterBackendReq json_decode url_parse body = Inr (u, wt)"
      "register json_decode url_parse errtext grow uid r w =
        Ret (w', http_Error (''url '' @ url_String u @ '' is already registered'') 409)"
      "\<exists>b\<in>set (abs_reg w). map_option url_String (URL b) = Some (url_String u)"
      "reg_ok w'" "abs_reg w' = abs_reg w"
  | (created) u wt w' where "parseRegisterBackendReq json_decode url_parse body = Inr (u, wt)"
      "register json_decode url_parse errtext grow uid r w =
        Ret (w', json_response 201 (JObject [(''instanceID'', JString uid)]))"
      "\<forall>b\<in>set (abs_reg w). map_option url_String (URL b) \<noteq> Some (url_String u)"
      "reg_ok w'" "abs_reg w' = abs_reg w @ [NewBackend uid (Some u) wt]"
proof (cases "parseRegisterBackendReq json_decode url_parse body")
  case (Inl e)
  with assms(3) show ?thesis by (intro refused) (auto simp: register_def)
next
  case (Inr uw)
  obtain u wt where uw: "uw = (u, wt)" by fastforce
  from reg.add_law [OF assms(1,2), of grow u wt] obtain w' where
    add: "AddNewBackend grow uid u wt w = Ret (w', snd (spec_add uid u wt (abs_reg w)))" and ok: "reg_ok w'"
    and view: "abs_reg w' = fst (spec_add uid u wt (abs_reg w))" by blast
  show ?thesis
  proof (cases "\<exists>b\<in>set (abs_reg w). map_option url_String (URL b) = Some (url_String u)")
    case True
    with Inr uw add ok view assms(3) show ?thesis
      by (intro conflict [of u wt w']) (auto simp: register_def spec_add_def)
  next
    case False
    with Inr uw add ok view assms(3) show ?thesis
      by (intro created [of u wt w']) (auto simp: register_def spec_add_def)
  qed
qed

lemma deregister_cases:
  assumes "reg_ok w"
  obtains (unnamed) "PathInstanceID r = []"
      "deregister grow r w = Ret (w, http_Error ''instanceID must be provided'' 400)"
  | (absent) w' where "PathInstanceID r \<noteq> []" "PathInstanceID r \<notin> InstanceID ` set (abs_reg w)"
      "deregister grow r w = Ret (w', http_Error (''backend with instanceID '' @ PathInstanceID r @ '' not found'') 404)"
      "reg_ok w'" "abs_reg w' = abs_reg w"
  | (removed) w' where "PathInstanceID r \<noteq> []" "PathInstanceID r \<in> InstanceID ` set (abs_reg w)"
      "deregister grow r w = Ret (w', \<lparr>Status = 200, RespHeader = Map.empty, RespBody = Raw []\<rparr>)"
      "reg_ok w'" "abs_reg w' = filter (\<lambda>b. InstanceID b \<noteq> PathInstanceID r) (abs_reg w)"
proof (cases "PathInstanceID r = []")
  case True
  then show ?thesis by (intro unnamed) (simp_all add: deregister_def)
next
  case named: False
  from reg.remove_law [OF assms, of grow "PathInstanceID r"] obtain w' where
    rem: "RemoveInstanceByID grow (PathInstanceID r) w = Ret (w', snd (spec_remove (PathInstanceID r) (abs_reg w)))"
    and ok: "reg_ok w'" and view: "abs_reg w' = fst (spec_remove (PathInstanceID r) (abs_reg w))" by blast
  show ?thesis
  proof (cases "PathInstanceID r \<in> InstanceID ` set (abs_reg w)")
    case True
    with named rem ok view show ?thesis
      by (intro removed [of w']) (auto simp: deregister_def spec_remove_def Let_def)
  next
    case False
    then have "filter (\<lambda>b. InstanceID b \<noteq> PathInstanceID r) (abs_reg w) = abs_reg w"
      by (intro filter_True) (metis imageI)
    moreover from False have "\<not> (\<exists>b\<in>set (abs_reg w). InstanceID b = PathInstanceID r)" by force
    ultimately show ?thesis using False named rem ok view
      by (intro absent [of w']) (simp_all add: deregister_def spec_remove_def Let_def)
  qed
qed

section \<open>Properties\<close>

text \<open>
  C18. Registration on every branch: the answer is 400 exactly when the request does not parse,
  409 exactly when it parses but the URL is registered already, and 201 with the new identifier
  otherwise; only the last changes the pool, by one unhealthy backend at the end, so no request
  is routed to it before a probe succeeds; and a registration never breaks what the selectors
  rely on (weights in range, http or https URLs with a host, distinct identifiers).
\<close>

theorem register_outcome:
  assumes "pool_ok w" and "uid \<notin> InstanceID ` set (abs_reg w)" and "Body r = Some body"
  shows "\<exists>w' resp. register json_decode url_parse errtext grow uid r w = Ret (w', resp) \<and> pool_ok w' \<and>
    filter Healthy (abs_reg w') = filter Healthy (abs_reg w) \<and>
    (case parseRegisterBackendReq json_decode url_parse body of
       Inl e \<Rightarrow> Status resp = 400 \<and> abs_reg w' = abs_reg w
     | Inr (u, wt) \<Rightarrow>
         if Some (url_String u) \<in> (\<lambda>b. map_option url_String (URL b)) ` set (abs_reg w)
         then Status resp = 409 \<and> abs_reg w' = abs_reg w
         else Status resp = 201 \<and> RespBody resp = Json (JObject [(''instanceID'', JString uid)]) \<and>
              abs_reg w' = abs_reg w @ [NewBackend uid (Some u) wt])"
proof -
  from assms(1) have ok: "reg_ok w" by (simp add: pool_ok_def)
  from ok assms(2,3) show ?thesis
  proof (cases rule: register_cases [where json_decode = json_decode and url_parse = url_parse
        and errtext = errtext and grow = grow])
    case (refused e)
    with assms(1) show ?thesis by simp
  next
    case (conflict u wt w')
    then have "pool_ok w'" using assms(1) by (simp add: pool_ok_def weights_ok_def)
    moreover have "Some (url_String u) \<in> (\<lambda>b. map_option url_String (URL b)) ` set (abs_reg w)"
      using conflict(3) by (metis (mono_tags, lifting) image_eqI)
    ultimately show ?thesis using conflict by simp
  next
    case (created u wt w')
    have "pool_ok w'"
      using assms(1) created(4,5) parse_accepts [OF created(1)]
      by (auto simp: pool_ok_def weights_ok_def weight_ok_def)
    moreover have "Some (url_String u) \<notin> (\<lambda>b. map_option url_String (URL b)) ` set (abs_reg w)"
      using created(3) by (metis (mono_tags, lifting) imageE)
    ultimately show ?thesis using created by simp
  qed
qed

definition decode_sample :: "reader \<Rightarrow> string + json" where
  "decode_sample body = Inr (JObject [(''url'', JString ''http://svc:80''), (''weight'', JNumber 7)])"

definition url_sample :: "string \<Rightarrow> url option" where
  "url_sample s = (if s = ''http://svc:80'' then Some (mk_url ''http'' ''svc:80'' []) else None)"

definition api_request :: "string \<Rightarrow> string \<Rightarrow> request" where
  "api_request m i = (sample_request ''10.0.0.9:5'' [])\<lparr>Method := m, Body := Some (Reader [] None), PathInstanceID := i\<rparr>"

lemma empty_pool: "pool_ok (boot [])" "abs_reg (boot []) = []"
  by (simp_all add: pool_ok_def reg_ok_def weights_ok_def boot_facts)

lemma parse_sample:
  "parseRegisterBackendReq decode_sample url_sample body = Inr (mk_url ''http'' ''svc:80'' [], 7)"
proof -
  have "field_is ''url'' ''url''" "field_is ''weight'' ''weight''" "\<not> field_is ''url'' ''weight''"
    by (simp_all add: field_is_def lower_def code_in_def)
  then show ?thesis unfolding parseRegisterBackendReq_def
    by (simp add: decode_sample_def decode_request_def decode_member_def
        url_sample_def mk_url_def zero_url_def MaxWeight_def Let_def)
qed

lemma register_outcome_witness:
  "\<exists>w' resp. register decode_sample url_sample (\<lambda>_. []) (\<lambda>n. n) ''i'' (api_request ''POST'' []) (boot []) = Ret (w', resp) \<and>
    Status resp = 201 \<and> abs_reg w' = [NewBackend ''i'' (Some (mk_url ''http'' ''svc:80'' [])) 7]"
  using register_outcome [OF empty_pool(1), where uid = "''i''" and r = "api_request ''POST'' []" and
      body = "Reader [] None" and json_decode = decode_sample and url_parse = url_sample
      and errtext = "\<lambda>_. []" and grow = "\<lambda>n. n"]
  by (auto simp: empty_pool(2) parse_sample api_request_def)

text \<open>
  Deregistration undoes registration: removing the identifier a 201 returned answers 200 and
  restores the pool, and removing it again answers 404 and changes nothing.
\<close>

theorem register_deregister_roundtrip:
  assumes "pool_ok w" and "uid \<notin> InstanceID ` set (abs_reg w)" and "uid \<noteq> []" and "Body r = Some body"
    and "register json_decode url_parse errtext grow uid r w = Ret (w1, resp)" and "Status resp = 201"
    and "PathInstanceID d = uid"
  shows "\<exists>w2 ok w3 gone. deregister grow d w1 = Ret (w2, ok) \<and> Status ok = 200 \<and> abs_reg w2 = abs_reg w \<and>
    pool_ok w2 \<and> deregister grow d w2 = Ret (w3, gone) \<and> Status gone = 404 \<and> abs_reg w3 = abs_reg w"
proof -
  from assms(1) have ok: "reg_ok w" by (simp add: pool_ok_def)
  from ok assms(2,4) obtain u wt where w1: "reg_ok w1" "abs_reg w1 = abs_reg w @ [NewBackend uid (Some u) wt]"
    using assms(5,6) by (cases rule: register_cases [where json_decode = json_decode and url_parse = url_parse
          and errtext = errtext and grow = grow]) auto
  have rest: "filter (\<lambda>b. InstanceID b \<noteq> uid) (abs_reg w) = abs_reg w"
    using assms(2) by (auto simp: filter_id_conv)
  from w1(1) obtain w2 where w2: "deregister grow d w1 = Ret (w2, \<lparr>Status = 200, RespHeader = Map.empty, RespBody = Raw []\<rparr>)"
    "reg_ok w2" "abs_reg w2 = abs_reg w"
    using assms(3,7) w1(2) rest by (cases rule: deregister_cases [where grow = grow and r = d]) auto
  from w2(2) obtain w3 gone where w3: "deregister grow d w2 = Ret (w3, gone)" "Status gone = 404" "abs_reg w3 = abs_reg w"
    using assms(2,3,7) w2(3) by (cases rule: deregister_cases [where grow = grow and r = d]) auto
  from w2(2,3) assms(1) have "pool_ok w2" by (simp add: pool_ok_def weights_ok_def)
  with w2 w3 show ?thesis by auto
qed

lemma register_deregister_roundtrip_witness:
  "\<exists>w1 resp w2 ok. register decode_sample url_sample (\<lambda>_. []) (\<lambda>n. n) ''i'' (api_request ''POST'' []) (boot []) = Ret (w1, resp) \<and>
    deregister (\<lambda>n. n) (api_request ''DELETE'' ''i'') w1 = Ret (w2, ok) \<and> Status ok = 200 \<and> abs_reg w2 = []"
proof -
  have b: "Body (api_request ''POST'' []) = Some (Reader [] None)" by (simp add: api_request_def)
  have fresh: "''i'' \<notin> InstanceID ` set (abs_reg (boot []))" by (simp add: empty_pool)
  from empty_pool(1) have ok: "reg_ok (boot [])" by (simp add: pool_ok_def)
  from ok fresh b obtain w1 where w1: "register decode_sample url_sample (\<lambda>_. []) (\<lambda>n. n) ''i'' (api_request ''POST'' []) (boot []) =
      Ret (w1, json_response 201 (JObject [(''instanceID'', JString ''i'')]))"
    by (cases rule: register_cases [where json_decode = decode_sample and url_parse = url_sample
          and errtext = "\<lambda>_. []" and grow = "\<lambda>n. n"]) (auto simp: parse_sample empty_pool(2))
  from register_deregister_roundtrip [OF empty_pool(1) fresh _ b w1, of "api_request ''DELETE'' ''i''"] w1
  show ?thesis by (auto simp: api_request_def empty_pool(2))
qed

end
