(* ===== verification/Router.thy ===== *)
theory Router
  imports HttpTypes GoPath "HOL-Library.Char_ord" "HOL-Library.List_Lexorder"
begin

text \<open>
  Routing as \<open>internal/server\<close> (server.go) sets it up with \<open>http.ServeMux\<close>: registrars mount
  pattern and handler pairs on one mux, and the mux picks the most specific pattern for the
  method and the path of a request.  Hosts in patterns and \<open>{name...}\<close> are not used by the
  program and not modelled; conflicting patterns, on which the mux panics at startup, do not
  occur in it.  The request target \<open>*\<close> and a CONNECT request without a path are left out.
\<close>

section \<open>Patterns\<close>

datatype segment = Lit string | Wild string

record pattern =
  pt_Text :: string
  pt_Method :: string \<comment> \<open>empty: every method\<close>
  pt_Segments :: "segment list"
  pt_Multi :: bool \<comment> \<open>the pattern ends in a slash\<close>

definition parse_segment :: "string \<Rightarrow> segment" where
  "parse_segment s = (if s \<noteq> [] \<and> hd s = CHR ''{'' then Wild (butlast (tl s)) else Lit s)"

definition parsePattern :: "string \<Rightarrow> pattern" where
  "parsePattern s =
     (let (m, pth) = (if CHR '' '' \<in> set s
            then (takeWhile (\<lambda>c. c \<noteq> CHR '' '') s, tl (dropWhile (\<lambda>c. c \<noteq> CHR '' '') s)) else ([], s));
          segs = split_on CHR ''/'' (tl pth); multi = last segs = []
      in \<lparr>pt_Text = s, pt_Method = m,
          pt_Segments = map parse_segment (if multi then butlast segs else segs), pt_Multi = multi\<rparr>)"

section \<open>Matching\<close>

text \<open>The segments of a path, unescaped where possible; a trailing slash is the segment \<open>/\<close>.\<close>

definition path_segments :: "string \<Rightarrow> string list" where
  "path_segments p =
     (let segs = split_on CHR ''/'' (tl p)
      in map (\<lambda>s. case unescape s of None \<Rightarrow> s | Some t \<Rightarrow> t) (butlast segs) @
         [if last segs = [] then ''/'' else (case unescape (last segs) of None \<Rightarrow> last segs | Some t \<Rightarrow> t)])"

fun match_segments :: "segment list \<Rightarrow> bool \<Rightarrow> string list \<Rightarrow> (string \<times> string) list option" where
  "match_segments [] multi xs = (if multi = (xs \<noteq> []) then Some [] else None)"
| "match_segments (p # ps) multi [] = None"
| "match_segments (Lit s # ps) multi (x # xs) = (if x = s then match_segments ps multi xs else None)"
| "match_segments (Wild n # ps) multi (x # xs) =
     (if x = ''/'' then None else map_option ((#) (n, x)) (match_segments ps multi xs))"

fun seg_rank :: "segment \<Rightarrow> nat" where
  "seg_rank (Lit s) = 0"
| "seg_rank (Wild n) = 1"

definition ranks :: "pattern \<Rightarrow> nat list" where
  "ranks p = map seg_rank (pt_Segments p) @ (if pt_Multi p then [2] else [])"

fun rank_less :: "nat list \<Rightarrow> nat list \<Rightarrow> bool" where
  "rank_less [] ys = (ys \<noteq> [])"
| "rank_less (x # xs) [] = False"
| "rank_less (x # xs) (y # ys) = (x < y \<or> x = y \<and> rank_less xs ys)"

definition best_match ::
    "(pattern \<times> 'h) list \<Rightarrow> string \<Rightarrow> string list \<Rightarrow> (pattern \<times> 'h \<times> (string \<times> string) list) option" where
  "best_match routes m segs =
     fold (\<lambda>(p, h) best.
       if pt_Method p \<noteq> m then best
       else case match_segments (pt_Segments p) (pt_Multi p) segs of
           None \<Rightarrow> best
         | Some bs \<Rightarrow>
             (case best of
                None \<Rightarrow> Some (p, h, bs)
              | Some (p', h', bs') \<Rightarrow> if rank_less (ranks p) (ranks p') then Some (p, h, bs) else best))
       routes None"

text \<open>A pattern with the method first, then GET for HEAD, then patterns for every method.\<close>

definition mux_match ::
    "(pattern \<times> 'h) list \<Rightarrow> string \<Rightarrow> string list \<Rightarrow> (pattern \<times> 'h \<times> (string \<times> string) list) option" where
  "mux_match routes m segs =
     (case best_match routes m segs of
        Some x \<Rightarrow> Some x
      | None \<Rightarrow>
          (case (if m = ''HEAD'' then best_match routes ''GET'' segs else None) of
             Some x \<Rightarrow> Some x
           | None \<Rightarrow> best_match routes [] segs))"

datatype 'h routed =
    Matched pattern 'h "(string \<times> string) list"
  | RedirectTo string string \<comment> \<open>the pattern that matched, and the cleaned path\<close>
  | MethodNotAllowed "string list" \<comment> \<open>the methods there are routes for\<close>
  | NotFound

text \<open>The methods of the patterns that match a path, in order; a pattern for GET serves HEAD as well.\<close>

definition allowed_methods :: "(pattern \<times> 'h) list \<Rightarrow> string list \<Rightarrow> string list" where
  "allowed_methods routes segs =
     (let ms = remdups (map (\<lambda>(p, h). pt_Method p)
           (filter (\<lambda>(p, h). match_segments (pt_Segments p) (pt_Multi p) segs \<noteq> None) routes))
      in sort (if ''GET'' \<in> set ms \<and> ''HEAD'' \<notin> set ms then ''HEAD'' # ms else ms))"

definition mux_route :: "(pattern \<times> 'h) list \<Rightarrow> request \<Rightarrow> 'h routed" where
  "mux_route routes r =
     (let escaped = EscapedPath (ReqURL r);
          pth = (if Method r = ''CONNECT'' then escaped else cleanPath escaped);
          found = mux_match routes (Method r) (path_segments pth)
      in if pth \<noteq> escaped
         then RedirectTo (case found of None \<Rightarrow> [] | Some (p, h, bs) \<Rightarrow> pt_Text p) pth
         else case found of
             Some (p, h, bs) \<Rightarrow> Matched p h bs
           | None \<Rightarrow>
               if allowed_methods routes (path_segments pth) \<noteq> []
               then MethodNotAllowed (allowed_methods routes (path_segments pth)) else NotFound)"

section \<open>Handlers\<close>

text \<open>
  What a handler does to its response writer.  \<open>WriteHeader\<close> carries the header map it sends;
  \<open>Hijack\<close> takes the connection over, and its number is the status then sent on it directly, as
  the reverse proxy does for a protocol upgrade.
\<close>

datatype writer_op = WriteHeader nat header | Write payload | Flush | Hijack nat

definition ops_of :: "response \<Rightarrow> writer_op list" where
  "ops_of resp = [WriteHeader (Status resp) (RespHeader resp), Write (RespBody resp)]"

text \<open>
  A handler returns the new state, the pattern it left in the request and, unless it panics,
  what it wrote.
\<close>

type_synonym 's http_handler = "request \<Rightarrow> 's \<Rightarrow> 's \<times> string \<times> writer_op list go"

text \<open>A registrar's routes; \<open>newRouter\<close> mounts all of them on one mux.\<close>

type_synonym 's registrar = "(string \<times> 's http_handler) list"

text \<open>
  The mux puts the cleaned, still escaped path into the \<open>Path\<close> of the URL it redirects to.  The
  note in the body of a redirected GET is left out.
\<close>

definition redirect_response :: "request \<Rightarrow> string \<Rightarrow> response" where
  "redirect_response r pth =
     \<lparr>Status = 307,
      RespHeader = [''Location'' \<mapsto> [url_String (zero_url\<lparr>url_Path := pth, url_RawQuery := url_RawQuery (ReqURL r)\<rparr>)]]
        (''Content-Type'' := if Method r = ''GET'' \<or> Method r = ''HEAD'' then Some [''text/html; charset=utf-8''] else None),
      RespBody = Raw []\<rparr>"

definition method_not_allowed :: "string list \<Rightarrow> response" where
  "method_not_allowed ms =
     (http_Error ''Method Not Allowed'' 405)
       \<lparr>RespHeader := header_Set (RespHeader (http_Error ''Method Not Allowed'' 405)) ''Allow'' (join_with '', '' ms)\<rparr>"

definition newRouter :: "'s registrar list \<Rightarrow> 's http_handler" where
  "newRouter registrars r s =
     (case mux_route (map (\<lambda>(t, h). (parsePattern t, h)) (concat registrars)) r of
        Matched p h bs \<Rightarrow>
          h (r\<lparr>Pattern := pt_Text p,
               PathInstanceID := (case map_of bs ''instanceID'' of None \<Rightarrow> [] | Some i \<Rightarrow> i)\<rparr>) s
      | RedirectTo t pth \<Rightarrow> (s, t, Ret (ops_of (redirect_response r pth)))
      | MethodNotAllowed ms \<Rightarrow> (s, [], Ret (ops_of (method_not_allowed ms)))
      | NotFound \<Rightarrow> (s, [], Ret (ops_of (http_Error ''404 page not found'' 404))))"

end
