(* ===== verification/Metrics.thy ===== *)
theory Metrics
  imports Netip
begin

text \<open>
  The process-wide metrics of \<open>internal/metrics\<close> (common.go): the registry they are collected in, the
  request counter and the report of one request.  The Prometheus client is a parameter: a state of
  any type holds the registry, \<open>new_registry\<close> makes it a new one, \<open>must_register\<close> registers
  collectors, panicking when that fails, and \<open>inc\<close> increments the request counter at the given
  label values.
\<close>

section \<open>Collectors\<close>

record counter_opts =
  opt_Name :: string
  opt_Help :: string

datatype collector =
    GoCollector
  | ProcessCollector
  | CounterVec counter_opts "string list" \<comment> \<open>with the names of its labels\<close>

definition request_counter :: collector where
  "request_counter =
     CounterVec \<lparr>opt_Name = ''http_requests_total'',
       opt_Help = ''Total number of HTTP requests processed, labelled by path, method and status.''\<rparr>
       [''path'', ''method'', ''status'']"

section \<open>The shared metrics\<close>

text \<open>The counter is the effect of incrementing it at label values.\<close>

record 's common =
  requests :: "string list \<Rightarrow> 's \<Rightarrow> 's"

definition NewCommon ::
    "(collector list \<Rightarrow> 'x \<Rightarrow> 'x go) \<Rightarrow> (string list \<Rightarrow> 's \<Rightarrow> 's) \<Rightarrow> 'x \<Rightarrow> ('x \<times> 's common) go" where
  "NewCommon must_register inc reg =
     go_bind (must_register [request_counter] reg) (\<lambda>reg'. Ret (reg', \<lparr>requests = inc\<rparr>))"

definition ObserveRequest :: "'s common \<Rightarrow> string \<Rightarrow> string \<Rightarrow> nat \<Rightarrow> 's \<Rightarrow> 's" where
  "ObserveRequest c path m status = requests c [path, m, dec status]"

definition metrics_NewRegistry :: "('x \<Rightarrow> 'x) \<Rightarrow> (collector list \<Rightarrow> 'x \<Rightarrow> 'x go) \<Rightarrow> 'x \<Rightarrow> 'x go" where
  "metrics_NewRegistry new_registry must_register x = must_register [GoCollector, ProcessCollector] (new_registry x)"

section \<open>What the client is relied on for\<close>

text \<open>
  Two collectors that one registry cannot hold, because metrics of theirs have the same name: those
  of the Go collector begin with \<open>go_\<close>, those of the process collector with \<open>process_\<close>.
\<close>

fun clash :: "collector \<Rightarrow> collector \<Rightarrow> bool" where
  "clash GoCollector (CounterVec opts labels) = (take 3 (opt_Name opts) = ''go_'')"
| "clash (CounterVec opts labels) GoCollector = (take 3 (opt_Name opts) = ''go_'')"
| "clash ProcessCollector (CounterVec opts labels) = (take 8 (opt_Name opts) = ''process_'')"
| "clash (CounterVec opts labels) ProcessCollector = (take 8 (opt_Name opts) = ''process_'')"
| "clash (CounterVec opts labels) (CounterVec opts' labels') = (opt_Name opts = opt_Name opts')"
| "clash a b = (a = b)"

text \<open>
  The documented behaviour of a registry, whose collectors are \<open>registered\<close>: a new one is empty,
  collectors that do not clash are added, and a collector cannot be registered twice.
\<close>

definition registry_laws ::
    "('x \<Rightarrow> 'x) \<Rightarrow> (collector list \<Rightarrow> 'x \<Rightarrow> 'x go) \<Rightarrow> ('x \<Rightarrow> collector list) \<Rightarrow> bool" where
  "registry_laws new_registry must_register registered \<longleftrightarrow>
     (\<forall>x. registered (new_registry x) = []) \<and>
     (\<forall>cs x. sorted_wrt (\<lambda>a b. \<not> clash a b) (registered x @ cs) \<longrightarrow>
        (\<exists>x'. must_register cs x = Ret x' \<and> registered x' = registered x @ cs)) \<and>
     (\<forall>c cs x. c \<in> set (registered x) \<and> c \<in> set cs \<longrightarrow> (\<exists>p. must_register cs x = Panic p))"

text \<open>
  The wiring of the program registers without a panic; a second counter on the same registry is the
  mistake that \<open>NewCommon\<close> surfaces.
\<close>

lemma metrics_wiring:
  assumes "registry_laws new_registry must_register registered"
  shows "\<exists>x1 x2. metrics_NewRegistry new_registry must_register x = Ret x1 \<and>
    NewCommon must_register inc x1 = Ret (x2, \<lparr>requests = inc\<rparr>) \<and>
    registered x2 = [GoCollector, ProcessCollector, request_counter] \<and>
    (\<exists>p. NewCommon must_register inc x2 = Panic p)"
proof -
  from assms have new: "registered (new_registry x) = []"
    and add: "\<And>cs x. sorted_wrt (\<lambda>a b. \<not> clash a b) (registered x @ cs) \<Longrightarrow>
      \<exists>x'. must_register cs x = Ret x' \<and> registered x' = registered x @ cs"
    and twice: "\<And>c cs x. c \<in> set (registered x) \<Longrightarrow> c \<in> set cs \<Longrightarrow> \<exists>p. must_register cs x = Panic p"
    by (simp_all add: registry_laws_def)
  from add [of "new_registry x" "[GoCollector, ProcessCollector]"] new obtain x1 where
    1: "metrics_NewRegistry new_registry must_register x = Ret x1" "registered x1 = [GoCollector, ProcessCollector]"
    by (auto simp: metrics_NewRegistry_def)
  from add [of x1 "[request_counter]"] 1(2) obtain x2 where
    2: "must_register [request_counter] x1 = Ret x2" "registered x2 = [GoCollector, ProcessCollector, request_counter]"
    by (auto simp: request_counter_def)
  from twice [of request_counter x2 "[request_counter]"] 2(2) obtain p where
    3: "must_register [request_counter] x2 = Panic p" by auto
  from 1 2 3 show ?thesis by (auto simp: NewCommon_def)
qed

section \<open>A registry as a list\<close>

definition list_register :: "collector list \<Rightarrow> collector list \<Rightarrow> collector list go" where
  "list_register cs x =
     (if sorted_wrt (\<lambda>a b. \<not> clash a b) (x @ cs) then Ret (x @ cs)
      else Panic (InvalidArgument ''duplicate metrics collector registration attempted''))"

lemma clash_refl: "clash c c"
  by (cases c) auto

lemma list_registry_laws: "registry_laws (\<lambda>_. []) list_register (\<lambda>x. x)"
  using clash_refl by (fastforce simp: registry_laws_def list_register_def sorted_wrt_append)

end
