(* ===== verification/Middleware.thy ===== *)
theory Middleware
  imports Router Metrics
begin

text \<open>
  The middleware of \<open>internal/bootstrap\<close> (middleware.go): chaining, the bearer token check, the
  body limit and the request metrics with their status recorder.
\<close>

section \<open>Chaining\<close>

type_synonym 's middleware = "'s http_handler \<Rightarrow> 's http_handler"

definition chain :: "'s middleware list \<Rightarrow> 's middleware" where
  "chain mws next = fold (\<lambda>mw h. mw h) (rev mws) next"

lemma chain_simps [simp]:
  "chain [] next = next"
  "chain (mw # mws) next = mw (chain mws next)"
  by (simp_all add: chain_def)

section \<open>The token\<close>

definition unauthorized :: response where
  "unauthorized =
     (http_Error ''unauthorized'' 401)
       \<lparr>RespHeader := header_Set (RespHeader (http_Error ''unauthorized'' 401)) ''WWW-Authenticate'' ''Bearer''\<rparr>"

definition bearerAuth :: "string \<Rightarrow> 's middleware" where
  "bearerAuth token next =
     (if token = [] then next
      else (\<lambda>r s.
        if header_Get (Header r) ''Authorization'' \<noteq> ''Bearer '' @ token
        then (s, Pattern r, Ret (ops_of unauthorized))
        else next r s))"

section \<open>The body limit\<close>

text \<open>\<open>http.MaxBytesReader\<close>; a negative limit counts as zero.\<close>

fun MaxBytesReader :: "int \<Rightarrow> reader \<Rightarrow> reader" where
  "MaxBytesReader limit (Reader b err) =
     (if length b \<le> nat limit then Reader b err
      else Reader (take (nat limit) b) (Some ''http: request body too large''))"

definition limitBody :: "int \<Rightarrow> 's middleware" where
  "limitBody limit next = (\<lambda>r s. next (r\<lparr>Body := map_option (MaxBytesReader limit) (Body r)\<rparr>) s)"

section \<open>The status recorder\<close>

text \<open>The recorder with what it has passed on to the writer it wraps.\<close>

record statusRecorder =
  rec_status :: nat
  wroteHeader :: bool
  passed_on :: "writer_op list"

definition pass_on :: "writer_op \<Rightarrow> statusRecorder \<Rightarrow> statusRecorder" where
  "pass_on op rec = rec\<lparr>passed_on := passed_on rec @ [op]\<rparr>"

definition recorder_WriteHeader :: "nat \<Rightarrow> header \<Rightarrow> statusRecorder \<Rightarrow> statusRecorder" where
  "recorder_WriteHeader code h rec =
     pass_on (WriteHeader code h)
       (if \<not> wroteHeader rec then rec\<lparr>rec_status := code, wroteHeader := True\<rparr> else rec)"

definition recorder_Write :: "payload \<Rightarrow> statusRecorder \<Rightarrow> statusRecorder" where
  "recorder_Write b rec = pass_on (Write b) (rec\<lparr>wroteHeader := True\<rparr>)"

definition recorder_Flush :: "statusRecorder \<Rightarrow> statusRecorder" where
  "recorder_Flush rec = pass_on Flush rec"

definition recorder_Hijack :: "nat \<Rightarrow> statusRecorder \<Rightarrow> statusRecorder" where
  "recorder_Hijack code rec = pass_on (Hijack code) rec"

fun record_op :: "writer_op \<Rightarrow> statusRecorder \<Rightarrow> statusRecorder" where
  "record_op (WriteHeader code h) rec = recorder_WriteHeader code h rec"
| "record_op (Write b) rec = recorder_Write b rec"
| "record_op Flush rec = recorder_Flush rec"
| "record_op (Hijack code) rec = recorder_Hijack code rec"

definition new_recorder :: statusRecorder where
  "new_recorder = \<lparr>rec_status = 200, wroteHeader = False, passed_on = []\<rparr>"

definition recorded :: "writer_op list \<Rightarrow> statusRecorder" where
  "recorded ops = fold record_op ops new_recorder"

section \<open>Request metrics\<close>

definition routeLabel :: "string \<Rightarrow> string" where
  "routeLabel pattern = (if pattern = [] then ''unmatched'' else pattern)"

text \<open>The request is reported after the handler has returned, so not when it panics.\<close>

definition requestMetrics :: "'s common \<Rightarrow> 's middleware" where
  "requestMetrics c next = (\<lambda>r s.
     case next r s of
       (s', pattern, Panic p) \<Rightarrow> (s', pattern, Panic p)
     | (s', pattern, Ret ops) \<Rightarrow>
         (ObserveRequest c (routeLabel pattern) (Method r) (rec_status (recorded ops)) s',
          pattern, Ret (passed_on (recorded ops))))"

definition commonMiddleware :: "'s common \<Rightarrow> int \<Rightarrow> 's middleware" where
  "commonMiddleware c bodyLimit = chain [requestMetrics c, limitBody bodyLimit]"

section \<open>What the client sees\<close>

text \<open>
  The writer of \<open>net/http\<close> as documented: informational statuses other than 101 are sent on the
  way and settle nothing, a write or a flush without a header implies 200, and only the first
  settled status counts.
\<close>

definition informational :: "nat \<Rightarrow> bool" where
  "informational code \<longleftrightarrow> 100 \<le> code \<and> code < 200 \<and> code \<noteq> 101"

fun net_status :: "writer_op list \<Rightarrow> nat" where
  "net_status [] = 200"
| "net_status (WriteHeader code h # ops) = (if informational code then net_status ops else code)"
| "net_status (Write b # ops) = 200"
| "net_status (Flush # ops) = 200"
| "net_status (Hijack code # ops) = code"

text \<open>What the recorder settles on: the first header or write, whatever kind it is.\<close>

fun first_status :: "writer_op list \<Rightarrow> nat" where
  "first_status [] = 200"
| "first_status (WriteHeader code h # ops) = code"
| "first_status (Write b # ops) = 200"
| "first_status (Flush # ops) = first_status ops"
| "first_status (Hijack code # ops) = first_status ops"

lemmas recorder_defs = recorder_WriteHeader_def recorder_Write_def recorder_Flush_def
  recorder_Hijack_def pass_on_def

lemma fold_record_passed_on: "passed_on (fold record_op ops rec) = passed_on rec @ ops"
proof (induction ops arbitrary: rec)
  case (Cons op ops)
  then show ?case by (cases op) (simp_all add: recorder_defs)
qed simp

lemma recorded_passed_on [simp]: "passed_on (recorded ops) = ops"
  by (simp add: recorded_def new_recorder_def fold_record_passed_on)

lemma fold_record_latched: "wroteHeader rec \<Longrightarrow> rec_status (fold record_op ops rec) = rec_status rec"
proof (induction ops arbitrary: rec)
  case (Cons op ops)
  then show ?case by (cases op) (simp_all add: recorder_defs)
qed simp

lemma fold_record_status:
  "\<not> wroteHeader rec \<Longrightarrow> rec_status rec = 200 \<Longrightarrow> rec_status (fold record_op ops rec) = first_status ops"
proof (induction ops arbitrary: rec)
  case (Cons op ops)
  then show ?case by (cases op) (simp_all add: recorder_defs fold_record_latched)
qed simp

lemma recorded_status: "rec_status (recorded ops) = first_status ops"
  by (simp add: recorded_def new_recorder_def fold_record_status)

lemma recorded_ops_of [simp]: "rec_status (recorded (ops_of resp)) = Status resp"
  by (simp add: recorded_status ops_of_def)

lemma requestMetrics_unfold:
  "requestMetrics c next r s =
    (case next r s of
       (s', pattern, Panic p) \<Rightarrow> (s', pattern, Panic p)
     | (s', pattern, Ret ops) \<Rightarrow>
         (requests c [routeLabel pattern, Method r, dec (first_status ops)] s', pattern, Ret ops))"
  by (simp add: requestMetrics_def ObserveRequest_def recorded_status)

section \<open>Counting leaves the rest of the state alone\<close>

text \<open>
  The part of the state that a counter does not touch is seen through \<open>view\<close>; middleware around a
  handler then changes it exactly as the handler does.
\<close>

locale metrics_sink =
  fixes c :: "'s common"
    and view :: "'s \<Rightarrow> 'v"
  assumes requests_view [simp]: "view (requests c labels s) = view s"
begin

lemma requestMetrics_view: "view (fst (requestMetrics c next r s)) = view (fst (next r s))"
  by (simp add: requestMetrics_unfold split: prod.splits go.splits)

lemma common_view:
  "view (fst (commonMiddleware c limit next r s)) =
   view (fst (next (r\<lparr>Body := map_option (MaxBytesReader limit) (Body r)\<rparr>) s))"
  by (simp add: commonMiddleware_def requestMetrics_view limitBody_def)

end

lemma requestMetrics_reply: "snd (requestMetrics c next r s) = snd (next r s)"
  by (simp add: requestMetrics_unfold split: prod.splits go.splits)

lemma common_reply:
  "snd (commonMiddleware c limit next r s) =
   snd (next (r\<lparr>Body := map_option (MaxBytesReader limit) (Body r)\<rparr>) s)"
  by (simp add: commonMiddleware_def requestMetrics_reply limitBody_def)

section \<open>Properties\<close>

definition early_hint :: "writer_op \<Rightarrow> bool" where
  "early_hint op \<longleftrightarrow> (case op of WriteHeader code h \<Rightarrow> informational code | _ \<Rightarrow> False)"

lemma net_status_early_hints: "list_all early_hint pre \<Longrightarrow> net_status (pre @ ops) = net_status ops"
  by (induction pre) (auto simp: early_hint_def split: writer_op.splits)

text \<open>
  C40. The status that is counted and the status the client gets.  When a handler sends a final
  response, possibly after informational ones, the client gets all of it unchanged, with the
  final status; the request is counted once, under that status if nothing was sent before, but
  under the first informational status otherwise: every response after an early hint is counted
  as 103.
\<close>

theorem counted_status:
  assumes "next r s = (s', pattern, Ret (pre @ ops_of resp @ rest))"
    and "list_all early_hint pre" and "\<not> informational (Status resp)"
  shows "\<exists>counted. requestMetrics c next r s =
      (requests c [routeLabel pattern, Method r, dec counted] s', pattern, Ret (pre @ ops_of resp @ rest)) \<and>
    net_status (pre @ ops_of resp @ rest) = Status resp \<and>
    (if pre = [] then counted = Status resp else informational counted)"
proof -
  let ?ops = "pre @ ops_of resp @ rest"
  have "net_status ?ops = Status resp"
    using assms(2,3) by (simp add: net_status_early_hints ops_of_def)
  moreover have "if pre = [] then first_status ?ops = Status resp else informational (first_status ?ops)"
    using assms(2) by (cases pre) (auto simp: ops_of_def early_hint_def split: writer_op.splits)
  ultimately show ?thesis using assms(1)
    by (intro exI [of _ "first_status ?ops"]) (simp add: requestMetrics_unfold)
qed

definition hinting_handler :: "nat http_handler" where
  "hinting_handler r n = (n, ''/'', Ret (WriteHeader 103 Map.empty # ops_of (http_Error ''gone'' 410)))"

definition count_hints :: "string list \<Rightarrow> nat \<Rightarrow> nat" where
  "count_hints labels n = (if labels ! 2 = dec 103 then n + 1 else n)"

lemma counted_status_witness:
  "\<forall>r. \<exists>counted. requestMetrics \<lparr>requests = count_hints\<rparr> hinting_handler r 0 =
      (count_hints [''/'', Method r, dec counted] 0, ''/'',
       Ret (WriteHeader 103 Map.empty # ops_of (http_Error ''gone'' 410))) \<and> informational counted"
proof
  fix r
  show "\<exists>counted. requestMetrics \<lparr>requests = count_hints\<rparr> hinting_handler r 0 =
      (count_hints [''/'', Method r, dec counted] 0, ''/'',
       Ret (WriteHeader 103 Map.empty # ops_of (http_Error ''gone'' 410))) \<and> informational counted"
    using counted_status [of hinting_handler r 0 0 "''/''" "[WriteHeader 103 Map.empty]"
        "http_Error ''gone'' 410" "[]" "\<lparr>requests = count_hints\<rparr>"]
    by (auto simp: hinting_handler_def early_hint_def informational_def routeLabel_def)
qed

end
