(* ===== verification/Servers.thy ===== *)
theory Servers
  imports Config Handlers Middleware
begin

text \<open>
  The three servers and how \<open>internal/bootstrap\<close> (server.go, runner.go) puts them together from
  the registry, the prober, the configured balancer, the handlers and the middleware
  (\<open>internal/server\<close>, server.go).  All requests run on one state: the pool, the environment of
  the balancers and, inside it, whatever lies outside the program, the metrics included.  What
  the program gets from outside is the record \<open>platform\<close>.
\<close>

section \<open>The platform\<close>

type_synonym 'x system = "'x balancer_env proxy_state"

record 'x platform =
  json_decode :: "reader \<Rightarrow> string + json"
  url_parse :: "string \<Rightarrow> url option"
  error_text :: "parse_error \<Rightarrow> string"
  grow :: "nat \<Rightarrow> nat"
  new_uuid :: "'x \<Rightarrow> string"
  round_trip :: "'x balancer_env round_trip"
  client_gone :: "'x balancer_env \<Rightarrow> bool"
  new_registry :: "'x \<Rightarrow> 'x"
  must_register :: "collector list \<Rightarrow> 'x \<Rightarrow> 'x go"
  increment :: "string list \<Rightarrow> 'x \<Rightarrow> 'x"
  promhttp :: "int \<Rightarrow> 'x system http_handler"

definition count_request :: "(string list \<Rightarrow> 'x \<Rightarrow> 'x) \<Rightarrow> string list \<Rightarrow> 'x system \<Rightarrow> 'x system" where
  "count_request inc labels s = s\<lparr>env := (env s)\<lparr>outside := inc labels (outside (env s))\<rparr>\<rparr>"

text \<open>The shared metrics, whose counter lies outside the program.\<close>

abbreviation counting :: "(string list \<Rightarrow> 'x \<Rightarrow> 'x) \<Rightarrow> 'x system common" where
  "counting inc \<equiv> \<lparr>requests = count_request inc\<rparr>"

interpretation counter: metrics_sink "counting inc" "\<lambda>s. (pool s, history s)" for inc
  by unfold_locales (simp add: count_request_def)

section \<open>Routes\<close>

text \<open>A handler of the management API or the health endpoints, which only uses the pool.\<close>

definition on_pool :: "(request \<Rightarrow> world \<Rightarrow> (world \<times> response) go) \<Rightarrow> 'x system http_handler" where
  "on_pool f r s =
     (case f r (pool s) of
        Panic p \<Rightarrow> (s, Pattern r, Panic p)
      | Ret (w', resp) \<Rightarrow> (s\<lparr>pool := w'\<rparr>, Pattern r, Ret (ops_of resp)))"

definition BackendHandler_Routes :: "'x platform \<Rightarrow> 'x system registrar" where
  "BackendHandler_Routes P =
     [(''GET /backends'', on_pool (\<lambda>r w. Ret (w, list_handler w))),
      (''POST /backends'', \<lambda>r s.
         on_pool (register (json_decode P) (url_parse P) (error_text P) (grow P) (new_uuid P (outside (env s)))) r s),
      (''DELETE /backends/{instanceID}'', on_pool (deregister (grow P)))]"

definition HealthHandler_Routes :: "'x system registrar" where
  "HealthHandler_Routes =
     [(''GET /healthz'', on_pool (\<lambda>r w. Ret (w, healthz w))),
      (''GET /readyz'', on_pool (\<lambda>r w. Ret (w, readyz w)))]"

definition Proxy_handler :: "'x platform \<Rightarrow> handler \<Rightarrow> 'x balancer_env balancer \<Rightarrow> 'x system http_handler" where
  "Proxy_handler P h sel r s =
     (case ServeHTTP h sel (round_trip P) (client_gone P) r s of
        (s', Panic p) \<Rightarrow> (s', Pattern r, Panic p)
      | (s', Ret Silent) \<Rightarrow> (s', Pattern r, Ret [])
      | (s', Ret (Replied resp)) \<Rightarrow> (s', Pattern r, Ret (ops_of resp)))"

definition Proxy_Routes :: "'x platform \<Rightarrow> handler \<Rightarrow> 'x balancer_env balancer \<Rightarrow> 'x system registrar" where
  "Proxy_Routes P h sel = [(''/'', Proxy_handler P h sel)]"

definition PrometheusHandler_Routes :: "'x platform \<Rightarrow> server_config \<Rightarrow> 'x system registrar" where
  "PrometheusHandler_Routes P cfg = [(''/metrics'', promhttp P (srv_WriteTimeout cfg))]"

section \<open>Servers\<close>

record 's http_server =
  Addr :: string
  Handler :: "'s http_handler"
  ReadTimeout :: int
  WriteTimeout :: int

definition server_New :: "server_config \<Rightarrow> 's middleware option \<Rightarrow> 's registrar list \<Rightarrow> 's http_server" where
  "server_New cfg mw registrars =
     \<lparr>Addr = CHR '':'' # Itoa (srv_Port cfg),
      Handler = (case mw of None \<Rightarrow> newRouter registrars | Some m \<Rightarrow> m (newRouter registrars)),
      ReadTimeout = srv_ReadTimeout cfg, WriteTimeout = srv_WriteTimeout cfg\<rparr>"

definition startMetricsRegistryServer ::
    "'x platform \<Rightarrow> 'x system middleware \<Rightarrow> config \<Rightarrow> 'x system http_server" where
  "startMetricsRegistryServer P mw cfg =
     (let c = MetricsConfig cfg
      in server_New c (Some mw) [PrometheusHandler_Routes P c])"

definition startRegistryServer ::
    "'x platform \<Rightarrow> 'x system middleware \<Rightarrow> config \<Rightarrow> 'x system http_server" where
  "startRegistryServer P mw cfg =
     server_New (RegistryConfig cfg) (Some mw) [BackendHandler_Routes P]"

definition startBalancerServer ::
    "'x platform \<Rightarrow> 'x system middleware \<Rightarrow> config \<Rightarrow> 'x system http_server" where
  "startBalancerServer P mw cfg =
     server_New (BalancerConfig cfg) (Some mw)
       [Proxy_Routes P (NewHandler (bal_MaxRetries (cfg_Balancer cfg)) (TrustedProxies cfg)) (ProxySelector cfg),
        HealthHandler_Routes]"

section \<open>Startup\<close>

text \<open>
  \<open>runProber\<close> up to its first, blocking round, during which nothing else uses the registry; its
  ticks afterwards are \<open>Prober.Run\<close>.
\<close>

definition runProber ::
    "(nat \<Rightarrow> string \<Rightarrow> nat option) \<Rightarrow> world \<Rightarrow> config
      \<Rightarrow> (probe_config \<times> world \<times> streaks) go" where
  "runProber http w cfg =
     (case NewProber (HealthConfig cfg) of
        (pc, st) \<Rightarrow> go_bind (ProbeOnce abs_reg SetHealthy pc http (\<lambda>w. w) (w, st)) (\<lambda>ws. Ret (pc, ws)))"

text \<open>
  \<open>Run\<close> up to the wait: the error that ends the process when there is no valid configuration, or
  else the prober's configuration and streaks, the state and the servers, in the order they start.
\<close>

definition bootstrap_Run ::
    "'x platform \<Rightarrow> (string \<Rightarrow> string + string) \<Rightarrow> (string \<Rightarrow> string + config) \<Rightarrow> (string \<Rightarrow> string) \<Rightarrow> (nat \<Rightarrow> string)
      \<Rightarrow> (nat \<Rightarrow> string \<Rightarrow> nat option) \<Rightarrow> 'x balancer_env \<Rightarrow> string option
      \<Rightarrow> load_error + ((probe_config \<times> streaks) \<times> 'x system \<times> 'x system http_server list) go" where
  "bootstrap_Run P read_file yaml getenv uid http e flag =
     (case loadConfig read_file yaml (url_parse P) flag of Inl err \<Rightarrow> Inl err | Inr cfg \<Rightarrow> Inr
     (let w = boot (DomainBackends (url_parse P) uid cfg)
      in go_bind (metrics_NewRegistry (new_registry P) (must_register P) (outside e)) (\<lambda>metricsReg.
         go_bind (NewCommon (must_register P) (count_request (increment P)) metricsReg) (\<lambda>(x, common).
           let mw = commonMiddleware common (ProxyBodyLimit cfg);
               authMW = bearerAuth (RegistryToken getenv)
           in go_bind (runProber http w cfg) (\<lambda>(pc, w', st).
                Ret ((pc, st), \<lparr>pool = w', env = e\<lparr>outside := x\<rparr>, history = []\<rparr>,
                  [startMetricsRegistryServer P mw cfg,
                   startRegistryServer P (chain [mw, authMW]) cfg,
                   startBalancerServer P mw cfg]))))))"

text \<open>The handlers of the two servers that use the pool.\<close>

definition registry_api :: "'x platform \<Rightarrow> string \<Rightarrow> config \<Rightarrow> 'x system http_handler" where
  "registry_api P token cfg =
     Handler (startRegistryServer P
       (chain [commonMiddleware (counting (increment P)) (ProxyBodyLimit cfg), bearerAuth token]) cfg)"

definition balancer_front :: "'x platform \<Rightarrow> config \<Rightarrow> 'x system http_handler" where
  "balancer_front P cfg =
     Handler (startBalancerServer P (commonMiddleware (counting (increment P)) (ProxyBodyLimit cfg)) cfg)"

definition limited :: "config \<Rightarrow> request \<Rightarrow> request" where
  "limited cfg r = r\<lparr>Body := map_option (MaxBytesReader (ProxyBodyLimit cfg)) (Body r)\<rparr>"

lemma limited_simps [simp]:
  "Method (limited cfg r) = Method r" "Header (limited cfg r) = Header r" "Pattern (limited cfg r) = Pattern r"
  "ReqURL (limited cfg r) = ReqURL r"
  by (simp_all add: limited_def)

section \<open>Patterns of the program\<close>

lemma parse_patterns:
  "parsePattern ''GET /backends'' =
     \<lparr>pt_Text = ''GET /backends'', pt_Method = ''GET'', pt_Segments = [Lit ''backends''], pt_Multi = False\<rparr>"
  "parsePattern ''POST /backends'' =
     \<lparr>pt_Text = ''POST /backends'', pt_Method = ''POST'', pt_Segments = [Lit ''backends''], pt_Multi = False\<rparr>"
  "parsePattern ''DELETE /backends/{instanceID}'' =
     \<lparr>pt_Text = ''DELETE /backends/{instanceID}'', pt_Method = ''DELETE'',
      pt_Segments = [Lit ''backends'', Wild ''instanceID''], pt_Multi = False\<rparr>"
  "parsePattern ''GET /healthz'' =
     \<lparr>pt_Text = ''GET /healthz'', pt_Method = ''GET'', pt_Segments = [Lit ''healthz''], pt_Multi = False\<rparr>"
  "parsePattern ''GET /readyz'' =
     \<lparr>pt_Text = ''GET /readyz'', pt_Method = ''GET'', pt_Segments = [Lit ''readyz''], pt_Multi = False\<rparr>"
  "parsePattern ''/'' = \<lparr>pt_Text = ''/'', pt_Method = [], pt_Segments = [], pt_Multi = True\<rparr>"
  by (simp_all add: parsePattern_def parse_segment_def)


lemma match_one: "match_segments [Lit a] False xs = (if xs = [a] then Some [] else None)"
  by (cases xs; cases "tl xs") auto

lemma match_two:
  "match_segments [Lit a, Wild n] False xs =
     (case xs of [y, x] \<Rightarrow> if y = a \<and> x \<noteq> ''/'' then Some [(n, x)] else None | _ \<Rightarrow> None)"
  by (auto split: list.splits)

lemma match_root: "match_segments [] True xs = (if xs = [] then None else Some [])"
  by simp

lemma path_segments_nonempty [simp]: "path_segments p \<noteq> []"
  by (simp add: path_segments_def Let_def)

section \<open>Where requests go\<close>

text \<open>The mux redirects a path that is not in canonical form, except for CONNECT.\<close>

definition canonical :: "request \<Rightarrow> bool" where
  "canonical r \<longleftrightarrow> Method r = ''CONNECT'' \<or> cleanPath (EscapedPath (ReqURL r)) = EscapedPath (ReqURL r)"

definition segments_of :: "request \<Rightarrow> string list" where
  "segments_of r = path_segments (EscapedPath (ReqURL r))"

lemma newRouter_redirect:
  assumes "\<not> canonical r"
  shows "\<exists>t. newRouter regs r s = (s, t, Ret (ops_of (redirect_response r (cleanPath (EscapedPath (ReqURL r))))))"
  using assms by (simp add: newRouter_def mux_route_def canonical_def Let_def)

lemma mux_route_canonical:
  "canonical r \<Longrightarrow> mux_route routes r =
     (case mux_match routes (Method r) (segments_of r) of
        Some (p, h, bs) \<Rightarrow> Matched p h bs
      | None \<Rightarrow>
          if allowed_methods routes (segments_of r) \<noteq> []
          then MethodNotAllowed (allowed_methods routes (segments_of r)) else NotFound)"
  by (auto simp: mux_route_def canonical_def segments_of_def Let_def split: option.splits)

definition routed_to :: "string \<Rightarrow> string \<Rightarrow> request \<Rightarrow> request" where
  "routed_to t i r = r\<lparr>Pattern := t, PathInstanceID := i\<rparr>"

definition is_read :: "request \<Rightarrow> bool" where
  "is_read r \<longleftrightarrow> Method r = ''GET'' \<or> Method r = ''HEAD''"

lemma method_sym:
  "(''GET'' = Method r) = (Method r = ''GET'')" "(''POST'' = Method r) = (Method r = ''POST'')"
  "(''DELETE'' = Method r) = (Method r = ''DELETE'')"
  by auto

lemma balancer_router:
  assumes "canonical r"
  shows "newRouter [Proxy_Routes P h sel, HealthHandler_Routes] r s =
    (if is_read r \<and> segments_of r = [''healthz''] then on_pool (\<lambda>r w. Ret (w, healthz w)) (routed_to ''GET /healthz'' [] r) s
     else if is_read r \<and> segments_of r = [''readyz''] then on_pool (\<lambda>r w. Ret (w, readyz w)) (routed_to ''GET /readyz'' [] r) s
     else Proxy_handler P h sel (routed_to ''/'' [] r) s)"
proof -
  have ne: "segments_of r \<noteq> []" by (simp add: segments_of_def)
  show ?thesis
    using assms ne
    by (auto simp: newRouter_def Proxy_Routes_def HealthHandler_Routes_def parse_patterns mux_route_canonical
        mux_match_def best_match_def match_one match_root ranks_def is_read_def routed_to_def method_sym)
qed

definition api_target :: "request \<Rightarrow> string option" where
  "api_target r = (case segments_of r of [a, i] \<Rightarrow> if a = ''backends'' \<and> i \<noteq> ''/'' then Some i else None | _ \<Rightarrow> None)"

lemma sort_methods: "sort [''HEAD'', ''GET'', ''POST''] = [''GET'', ''HEAD'', ''POST'']"
  by code_simp

lemma api_router:
  assumes "canonical r"
  shows "newRouter [BackendHandler_Routes P] r s =
    (if segments_of r = [''backends''] then
       if is_read r then on_pool (\<lambda>r w. Ret (w, list_handler w)) (routed_to ''GET /backends'' [] r) s
       else if Method r = ''POST'' then
         on_pool (register (json_decode P) (url_parse P) (error_text P) (grow P) (new_uuid P (outside (env s))))
           (routed_to ''POST /backends'' [] r) s
       else (s, [], Ret (ops_of (method_not_allowed [''GET'', ''HEAD'', ''POST''])))
     else case api_target r of
         Some i \<Rightarrow>
           if Method r = ''DELETE'' then on_pool (deregister (grow P)) (routed_to ''DELETE /backends/{instanceID}'' i r) s
           else (s, [], Ret (ops_of (method_not_allowed [''DELETE''])))
       | None \<Rightarrow> (s, [], Ret (ops_of (http_Error ''404 page not found'' 404))))"
  using assms
  by (auto simp: newRouter_def BackendHandler_Routes_def parse_patterns mux_route_canonical
      mux_match_def best_match_def match_one match_two ranks_def is_read_def routed_to_def api_target_def method_sym
      allowed_methods_def sort_methods split: list.splits)


section \<open>The servers unfolded\<close>

definition authorized :: "string \<Rightarrow> request \<Rightarrow> bool" where
  "authorized token r \<longleftrightarrow> token = [] \<or> header_Get (Header r) ''Authorization'' = ''Bearer '' @ token"

lemma registry_api_cases:
  "registry_api P token cfg r s =
    (if authorized token r
     then requestMetrics (counting (increment P)) (\<lambda>_. newRouter [BackendHandler_Routes P] (limited cfg r)) r s
     else (count_request (increment P) [routeLabel (Pattern r), Method r, dec 401] s, Pattern r, Ret (ops_of unauthorized)))"
  by (simp add: registry_api_def startRegistryServer_def server_New_def commonMiddleware_def limitBody_def
      bearerAuth_def authorized_def requestMetrics_unfold ops_of_def unauthorized_def http_Error_def
      flip: limited_def)

lemma balancer_front_eq:
  "balancer_front P cfg r s =
    requestMetrics (counting (increment P))
      (\<lambda>_. newRouter [Proxy_Routes P (NewHandler (bal_MaxRetries (cfg_Balancer cfg)) (TrustedProxies cfg)) (ProxySelector cfg),
        HealthHandler_Routes] (limited cfg r)) r s"
  by (simp add: balancer_front_def startBalancerServer_def server_New_def commonMiddleware_def limitBody_def
      requestMetrics_unfold flip: limited_def split: prod.splits go.splits)

lemma canonical_limited [simp]: "canonical (limited cfg r) = canonical r"
  "segments_of (limited cfg r) = segments_of r" "is_read (limited cfg r) = is_read r"
  "api_target (limited cfg r) = api_target r"
  by (simp_all add: canonical_def segments_of_def is_read_def api_target_def)

lemma on_pool_read: "on_pool (\<lambda>r w. Ret (w, f w)) r s = (s, Pattern r, Ret (ops_of (f (pool s))))"
  by (simp add: on_pool_def)

text \<open>A wildcard never matches an empty segment: the last segment of a path ends non-empty.\<close>

lemma unescape_nonempty: "unescape s = Some [] \<Longrightarrow> s = []"
  by (cases s rule: unescape.cases) (auto split: if_splits list.splits option.splits)

lemma api_target_named: "api_target r = Some i \<Longrightarrow> i \<noteq> []"
proof -
  assume "api_target r = Some i"
  then have "i = last (segments_of r)" by (auto simp: api_target_def split: list.splits if_splits)
  then show "i \<noteq> []"
    by (auto simp: segments_of_def path_segments_def Let_def dest: unescape_nonempty split: option.splits if_splits)
qed

text \<open>A handler that leaves the pool alone, seen from outside the middleware.\<close>

lemma requestMetrics_pool:
  "pool (fst (requestMetrics (counting inc) next r s)) = pool (fst (next r s))"
  "history (fst (requestMetrics (counting inc) next r s)) = history (fst (next r s))"
  using counter.requestMetrics_view [of inc "next" r s] by simp_all

lemma api_router_pool:
  assumes "pool (fst (newRouter [BackendHandler_Routes P] r s)) \<noteq> pool s"
  shows "canonical r" and "Method r = ''POST'' \<and> segments_of r = [''backends''] \<or>
    Method r = ''DELETE'' \<and> (\<exists>i. segments_of r = [''backends'', i] \<and> i \<noteq> [])"
proof -
  show c: "canonical r"
  proof (rule ccontr)
    assume "\<not> canonical r"
    from newRouter_redirect [OF this, of "[BackendHandler_Routes P]" s] assms show False by auto
  qed
  show "Method r = ''POST'' \<and> segments_of r = [''backends''] \<or>
    Method r = ''DELETE'' \<and> (\<exists>i. segments_of r = [''backends'', i] \<and> i \<noteq> [])"
    using assms api_target_named [of r]
    by (auto simp: api_router [OF c] on_pool_read api_target_def split: if_splits list.splits)
qed


section \<open>A sample platform\<close>

definition sample_platform :: "collector list platform" where
  "sample_platform =
     \<lparr>json_decode = decode_sample, url_parse = url_sample, error_text = (\<lambda>_. []),
      grow = (\<lambda>n. n), new_uuid = (\<lambda>_. ''i''), round_trip = sample_network, client_gone = (\<lambda>_. False),
      new_registry = (\<lambda>_. []), must_register = list_register,
      increment = (\<lambda>_ x. x), promhttp = (\<lambda>_ r s. (s, Pattern r, Ret []))\<rparr>"

definition sample_system :: "world \<Rightarrow> collector list system" where
  "sample_system w = \<lparr>pool = w, env = \<lparr>current = 0, rng = (\<lambda>_ _. 0), drawn = 0, outside = []\<rparr>, history = []\<rparr>"

definition path_request :: "string \<Rightarrow> string \<Rightarrow> string \<Rightarrow> request" where
  "path_request m p b =
     (sample_request ''203.0.113.7:80'' [])
       \<lparr>Method := m, ReqURL := zero_url\<lparr>url_Path := p\<rparr>, Body := Some (Reader b None)\<rparr>"

abbreviation sample_cfg :: config where
  "sample_cfg \<equiv> sample_config [] [] ''random''"

lemma path_request_simps [simp]:
  "Method (path_request m p b) = m" "Body (path_request m p b) = Some (Reader b None)"
  "Header (path_request m p b) = [''X-Forwarded-For'' \<mapsto> []]" "GetBody (path_request m p b) = None"
  by (simp_all add: path_request_def sample_request_def)

lemma sample_paths:
  "canonical (path_request m ''/backends'' b)" "segments_of (path_request m ''/backends'' b) = [''backends'']"
  "canonical (path_request m ''/readyz'' b)" "segments_of (path_request m ''/readyz'' b) = [''readyz'']"
  "canonical (path_request m ''/'' b)" "segments_of (path_request m ''/'' b) = [''/'']"
proof -
  have "EscapedPath (ReqURL (path_request m p b)) = EscapedPath (zero_url\<lparr>url_Path := p\<rparr>)" for p
    by (simp add: path_request_def)
  moreover have "EscapedPath (zero_url\<lparr>url_Path := ''/backends''\<rparr>) = ''/backends''"
    "EscapedPath (zero_url\<lparr>url_Path := ''/readyz''\<rparr>) = ''/readyz''"
    "EscapedPath (zero_url\<lparr>url_Path := ''/''\<rparr>) = ''/''" by code_simp+
  moreover have "cleanPath ''/backends'' = ''/backends''" "cleanPath ''/readyz'' = ''/readyz''" "cleanPath ''/'' = ''/''"
    "path_segments ''/backends'' = [''backends'']" "path_segments ''/readyz'' = [''readyz'']"
    "path_segments ''/'' = [''/'']" by code_simp+
  ultimately show "canonical (path_request m ''/backends'' b)" "segments_of (path_request m ''/backends'' b) = [''backends'']"
    "canonical (path_request m ''/readyz'' b)" "segments_of (path_request m ''/readyz'' b) = [''readyz'']"
    "canonical (path_request m ''/'' b)" "segments_of (path_request m ''/'' b) = [''/'']"
    by (simp_all add: canonical_def segments_of_def)
qed

section \<open>Properties\<close>

text \<open>
  C16. Who can change the pool through the management API.  Without the configured token every
  request is answered 401, counted as such, and nothing else happens.  A request after which the
  pool is different carried the token and was a POST to \<open>/backends\<close> or a DELETE of
  \<open>/backends/{instanceID}\<close> with a non-empty identifier, on a path in canonical form.
\<close>

theorem registry_api_guard:
  "(\<not> authorized token r \<longrightarrow> registry_api P token cfg r s =
     (count_request (increment P) [routeLabel (Pattern r), Method r, dec 401] s, Pattern r, Ret (ops_of unauthorized))) \<and>
   (pool (fst (registry_api P token cfg r s)) \<noteq> pool s \<longrightarrow> authorized token r \<and> canonical r \<and>
     (Method r = ''POST'' \<and> segments_of r = [''backends''] \<or>
      Method r = ''DELETE'' \<and> (\<exists>i. segments_of r = [''backends'', i] \<and> i \<noteq> [])))"
proof (cases "authorized token r")
  case True
  then have eq: "pool (fst (registry_api P token cfg r s)) = pool (fst (newRouter [BackendHandler_Routes P] (limited cfg r) s))"
    by (simp add: registry_api_cases requestMetrics_pool)
  show ?thesis using True api_router_pool [of P "limited cfg r" s] by (auto simp: eq)
next
  case False
  then show ?thesis by (simp add: registry_api_cases count_request_def)
qed

lemma sample_registration:
  "pool (fst (registry_api sample_platform [] sample_cfg (path_request ''POST'' ''/backends'' ''{}'') (sample_system (boot []))))
     \<noteq> boot []"
proof -
  let ?r = "routed_to ''POST /backends'' [] (limited sample_cfg (path_request ''POST'' ''/backends'' ''{}''))"
  have b: "Body ?r = Some (Reader ''{}'' None)"
    by (simp add: limited_def routed_to_def ProxyBodyLimit_def sample_config_def DefaultProxyBodyLimit_def)
  have fresh: "''i'' \<notin> InstanceID ` set (abs_reg (boot []))" by (simp add: empty_pool)
  from empty_pool(1) have ok: "reg_ok (boot [])" by (simp add: pool_ok_def)
  from ok fresh b obtain w1 resp where
    "register decode_sample url_sample (\<lambda>_. []) (\<lambda>n. n) ''i'' ?r (boot []) = Ret (w1, resp)" "abs_reg w1 \<noteq> []"
    by (cases rule: register_cases [where json_decode = decode_sample and url_parse = url_sample
          and errtext = "\<lambda>_. []" and grow = "\<lambda>n. n"]) (auto simp: parse_sample empty_pool(2))
  then have "pool (fst (newRouter [BackendHandler_Routes sample_platform]
      (limited sample_cfg (path_request ''POST'' ''/backends'' ''{}'')) (sample_system (boot [])))) = w1"
    by (simp add: api_router sample_paths is_read_def on_pool_def sample_platform_def sample_system_def)
  with \<open>abs_reg w1 \<noteq> []\<close> show ?thesis
    by (auto simp: registry_api_cases authorized_def requestMetrics_pool empty_pool(2))
qed

lemma registry_api_guard_witness:
  "snd (snd (registry_api sample_platform ''t'' sample_cfg (path_request ''DELETE'' ''/backends/x'' []) (sample_system (boot [])))) =
     Ret (ops_of unauthorized) \<and>
   canonical (path_request ''POST'' ''/backends'' ''{}'')"
proof
  have "\<not> authorized ''t'' (path_request ''DELETE'' ''/backends/x'' [])"
    by (simp add: authorized_def header_Get_def header_Values_def)
  with registry_api_guard [of "''t''" "path_request ''DELETE'' ''/backends/x'' []" sample_platform sample_cfg
      "sample_system (boot [])"]
  show "snd (snd (registry_api sample_platform ''t'' sample_cfg (path_request ''DELETE'' ''/backends/x'' [])
      (sample_system (boot [])))) = Ret (ops_of unauthorized)" by simp
  from sample_registration registry_api_guard [of "[]" "path_request ''POST'' ''/backends'' ''{}''" sample_platform sample_cfg
      "sample_system (boot [])"]
  show "canonical (path_request ''POST'' ''/backends'' ''{}'')" by (simp add: sample_system_def)
qed


section \<open>The balancer's requests\<close>

definition proxied :: "request \<Rightarrow> bool" where
  "proxied r \<longleftrightarrow> canonical r \<and> \<not> (is_read r \<and> segments_of r \<in> {[''healthz''], [''readyz'']})"

definition front_handler :: "config \<Rightarrow> handler" where
  "front_handler cfg = NewHandler (bal_MaxRetries (cfg_Balancer cfg)) (TrustedProxies cfg)"

definition observed :: "'x system \<times> 'r \<Rightarrow> (world \<times> attempt list) \<times> 'r" where
  "observed out = (case out of (s, reply) \<Rightarrow> ((pool s, history s), reply))"

lemma observed_requestMetrics: "observed (requestMetrics (counting inc) next r s) = observed (next r s)"
  by (simp add: observed_def requestMetrics_unfold count_request_def split: prod.splits go.splits)

lemma balancer_front_proxied:
  "proxied r \<Longrightarrow> balancer_front P cfg r s =
    requestMetrics (counting (increment P))
      (\<lambda>_. Proxy_handler P (front_handler cfg) (ProxySelector cfg) (routed_to ''/'' [] (limited cfg r))) r s"
  by (auto simp: balancer_front_eq balancer_router proxied_def front_handler_def requestMetrics_unfold)

text \<open>
  C29. Where the balancer's requests go.  On a canonical path, GET and HEAD of exactly
  \<open>/healthz\<close> and \<open>/readyz\<close> are answered by the balancer itself, from the pool alone and without
  touching it; every other request, a POST to the same paths included, goes to the proxy under
  the pattern \<open>/\<close>, which bounds the label of the metrics, with its body limited.
\<close>

theorem balancer_routing:
  assumes "canonical r"
  shows "observed (balancer_front P cfg r s) =
    (if is_read r \<and> segments_of r = [''healthz''] then
       ((pool s, history s), ''GET /healthz'', Ret (ops_of (healthz (pool s))))
     else if is_read r \<and> segments_of r = [''readyz''] then
       ((pool s, history s), ''GET /readyz'', Ret (ops_of (readyz (pool s))))
     else observed (Proxy_handler P (front_handler cfg) (ProxySelector cfg)
       (r\<lparr>Pattern := ''/'', PathInstanceID := [], Body := map_option (MaxBytesReader (ProxyBodyLimit cfg)) (Body r)\<rparr>) s))"
proof -
  have "routed_to ''/'' [] (limited cfg r) =
      r\<lparr>Pattern := ''/'', PathInstanceID := [], Body := map_option (MaxBytesReader (ProxyBodyLimit cfg)) (Body r)\<rparr>"
    by (simp add: routed_to_def limited_def)
  moreover have "observed (balancer_front P cfg r s) =
      observed (newRouter [Proxy_Routes P (front_handler cfg) (ProxySelector cfg), HealthHandler_Routes] (limited cfg r) s)"
    by (simp add: balancer_front_eq observed_requestMetrics front_handler_def)
  ultimately show ?thesis using assms
    by (simp add: balancer_router on_pool_read) (simp add: observed_def routed_to_def)
qed

lemma balancer_routing_witness:
  "snd (balancer_front sample_platform sample_cfg (path_request ''GET'' ''/readyz'' []) (sample_system (boot []))) =
     (''GET /readyz'', Ret (ops_of (readyz (boot []))))"
  using balancer_routing [of "path_request ''GET'' ''/readyz'' []" sample_platform sample_cfg "sample_system (boot [])"]
  by (simp add: sample_paths is_read_def observed_def sample_system_def split_beta)

lemma Proxy_handler_unread:
  assumes "map_option ReadAll (Body r) = Some (Inl err)"
  shows "Proxy_handler P h sel r s = (s, Pattern r, Ret (ops_of body_failed_reply))"
  using assms by (auto simp: Proxy_handler_def ServeHTTP_def body_failed_reply_def)

text \<open>
  C31. A body over the configured limit is refused before anything is tried: the client gets the
  400 for an unreadable body (not 413), the request is counted so, no backend is selected and
  neither the pool nor the round-robin counter moves.
\<close>

theorem oversized_body_refused:
  assumes "proxied r" and "Body r = Some (Reader b e)" and "nat (ProxyBodyLimit cfg) < length b"
  shows "balancer_front P cfg r s =
    (count_request (increment P) [''/'', Method r, dec 400] s, ''/'', Ret (ops_of body_failed_reply))"
proof -
  have "map_option ReadAll (Body (routed_to ''/'' [] (limited cfg r))) = Some (Inl ''http: request body too large'')"
    using assms(2,3) by (simp add: routed_to_def limited_def)
  note unread = Proxy_handler_unread [OF this, of P "front_handler cfg" "ProxySelector cfg" s]
  show ?thesis
    by (simp add: balancer_front_proxied [OF assms(1)] requestMetrics_unfold unread)
      (simp add: routed_to_def routeLabel_def ops_of_def body_failed_reply_def)
qed

lemma oversized_body_refused_witness:
  "balancer_front sample_platform (sample_cfg\<lparr>cfg_Proxy := \<lparr>ps_BodyLimit = 3, ps_TrustedProxies = []\<rparr>\<rparr>)
     (path_request ''PUT'' ''/'' ''v=12'') (sample_system (boot [])) =
   (sample_system (boot []), ''/'', Ret (ops_of body_failed_reply))"
proof -
  let ?cfg = "sample_cfg\<lparr>cfg_Proxy := \<lparr>ps_BodyLimit = 3, ps_TrustedProxies = []\<rparr>\<rparr>"
  have "proxied (path_request ''PUT'' ''/'' ''v=12'')" by (simp add: proxied_def sample_paths)
  moreover have "nat (ProxyBodyLimit ?cfg) < length ''v=12''" by (simp add: ProxyBodyLimit_def)
  ultimately show ?thesis
    using oversized_body_refused [of "path_request ''PUT'' ''/'' ''v=12''" "''v=12''" None ?cfg sample_platform
        "sample_system (boot [])"]
    by (simp add: count_request_def sample_platform_def sample_system_def)
qed


definition body_fits :: "config \<Rightarrow> request \<Rightarrow> bool" where
  "body_fits cfg r \<longleftrightarrow> (case Body r of None \<Rightarrow> True | Some (Reader b e) \<Rightarrow> length b \<le> nat (ProxyBodyLimit cfg))"

lemma limited_fits: "body_fits cfg r \<Longrightarrow> limited cfg r = r"
  by (auto simp: body_fits_def limited_def split: option.splits reader.splits)

lemma readable_routed [simp]: "readable (routed_to t i r) = readable r"
  by (simp add: readable_def routed_to_def split: option.splits)

lemma ops_of_Status: "ops_of a = ops_of b \<Longrightarrow> Status a = Status b"
  by (simp add: ops_of_def)

lemma Proxy_handler_history: "history (fst (Proxy_handler P h sel r s)) = history (fst (ServeHTTP h sel (round_trip P) (client_gone P) r s))"
  by (simp add: Proxy_handler_def split: prod.splits go.splits reply.splits)

text \<open>
  C15. Readiness tells the truth about the next request.  Whatever strategy is configured, in a
  state where \<open>/readyz\<close> answers 200 a proxied request is tried on one of the healthy backends, and
  in a state where it answers 503 a proxied request gets the 503 for an empty pool and nothing is
  tried; there is no third answer.
\<close>

theorem readyz_predicts:
  assumes "sel_ok (pool s)" and "rr_ok (pool s)" and "sendable (pool s)"
    and "no_wrap (current (env s)) (pool s)" and "rng_ok (env s) (pool s)"
    and "client_gone P = (\<lambda>_. False)" and "0 \<le> bal_MaxRetries (cfg_Balancer cfg)"
    and "proxied r" and "readable r" and "body_fits cfg r"
    and "canonical q" and "is_read q" and "segments_of q = [''readyz'']"
  shows "\<exists>ready. snd (balancer_front P cfg q s) = (''GET /readyz'', Ret (ops_of ready)) \<and>
    (Status ready = 200 \<and> (\<exists>a new. history (fst (balancer_front P cfg r s)) = history s @ a # new \<and>
        att_target a \<in> set (ListHealthyBackends (pool s)))
     \<or> Status ready = 503 \<and> history (fst (balancer_front P cfg r s)) = history s \<and>
        snd (balancer_front P cfg r s) = (''/'', Ret (ops_of no_backends_reply)))"
proof -
  let ?ready = "readyz (pool s)" and ?h = "front_handler cfg" and ?r = "routed_to ''/'' [] r"
  have q: "snd (balancer_front P cfg q s) = (''GET /readyz'', Ret (ops_of ?ready))"
    using assms(11-13)
    by (simp add: balancer_front_eq requestMetrics_reply balancer_router on_pool_read) (simp add: routed_to_def)
  obtain s' res where serve: "ServeHTTP ?h (ProxySelector cfg) (round_trip P) (\<lambda>_. False) ?r s = (s', res)"
    by fastforce
  have "0 \<le> maxRetriesFor ?h ?r" using assms(7) by (simp add: maxRetriesFor_def front_handler_def NewHandler_def)
  from configured_balancer_run [OF assms(1-5) _ this serve] assms(9)
  have run: "if ListHealthyBackends (pool s) = []
      then res = Ret (Replied no_backends_reply) \<and> history s' = history s
      else \<exists>a new. history s' = history s @ a # new \<and> att_target a \<in> set (ListHealthyBackends (pool s))" by simp
  have hist: "history (fst (balancer_front P cfg r s)) = history s'"
    using assms(6,8) serve
    by (simp add: balancer_front_proxied limited_fits [OF assms(10)] requestMetrics_pool Proxy_handler_history)
  have reply: "snd (balancer_front P cfg r s) = (''/'', Ret (ops_of no_backends_reply))"
    if "res = Ret (Replied no_backends_reply)"
    using assms(6,8) serve that
    by (simp add: balancer_front_proxied limited_fits [OF assms(10)] requestMetrics_reply Proxy_handler_def)
      (simp add: routed_to_def)
  show ?thesis using q run hist reply
    by (intro exI [of _ ?ready]) (auto simp: readyz_def writeJSON_def)
qed

lemma readyz_predicts_witness:
  "history (fst (balancer_front sample_platform sample_cfg (path_request ''PUT'' ''/'' []) (sample_system pair_world))) \<noteq> []"
proof -
  let ?s = "sample_system pair_world" and ?r = "path_request ''PUT'' ''/'' []" and ?q = "path_request ''GET'' ''/readyz'' []"
  have "sel_ok (pool ?s)" "rr_ok (pool ?s)" "sendable (pool ?s)" "no_wrap (current (env ?s)) (pool ?s)"
    "rng_ok (env ?s) (pool ?s)" "client_gone sample_platform = (\<lambda>_. False)"
    "0 \<le> bal_MaxRetries (cfg_Balancer sample_cfg)" "proxied ?r" "readable ?r" "body_fits sample_cfg ?r"
    "canonical ?q" "is_read ?q" "segments_of ?q = [''readyz'']"
    by (simp_all add: sample_system_def pair_world_facts pair_rr_ok sendable_def healthy_backend_def no_wrap_def
        rng_ok_def draw_ok_def word_gt_0 sample_platform_def sample_config_def proxied_def sample_paths
        readable_def body_fits_def is_read_def)
  from readyz_predicts [OF this] show ?thesis
    by (auto simp: sample_system_def pair_world_facts balancer_front_eq requestMetrics_reply balancer_router sample_paths
        is_read_def on_pool_read readyz_def writeJSON_def dest!: ops_of_Status)
qed


section \<open>The labels of the metrics\<close>

text \<open>What the middleware makes of the outcome of the handler below it.\<close>

definition reported ::
    "(string list \<Rightarrow> 'x \<Rightarrow> 'x) \<Rightarrow> string \<Rightarrow> string \<Rightarrow> 'x system \<times> string \<times> writer_op list go \<Rightarrow> 'x system \<times> string \<times> writer_op list go" where
  "reported inc path m out =
     (case out of
        (s, pattern, Panic p) \<Rightarrow> (s, pattern, Panic p)
      | (s, pattern, Ret ops) \<Rightarrow> (count_request inc [path, m, dec (first_status ops)] s, pattern, Ret ops))"

lemma requestMetrics_reported:
  "requestMetrics (counting inc) next r s = reported inc (routeLabel (fst (snd (next r s)))) (Method r) (next r s)"
  by (simp add: requestMetrics_unfold reported_def split: prod.splits go.splits)

text \<open>A mux leaves the pattern it matched, when its handlers leave it alone.\<close>

lemma best_match_member: "best_match routes m segs = Some (p, h, bs) \<Longrightarrow> (p, h) \<in> set routes"
proof -
  have "\<forall>p h bs. best_match routes m segs = Some (p, h, bs) \<longrightarrow> (p, h) \<in> set routes"
    unfolding best_match_def
    by (rule fold_invariant [where Q = "\<lambda>x. x \<in> set routes"]) (auto split: option.splits if_splits)
  then show "best_match routes m segs = Some (p, h, bs) \<Longrightarrow> (p, h) \<in> set routes" by blast
qed

lemma mux_match_member: "mux_match routes m segs = Some (p, h, bs) \<Longrightarrow> (p, h) \<in> set routes"
  by (auto simp: mux_match_def best_match_member split: option.splits if_splits)

lemma newRouter_pattern:
  assumes "\<And>t h r s. (t, h) \<in> set (concat regs) \<Longrightarrow> fst (snd (h r s)) = Pattern r"
  shows "fst (snd (newRouter regs r s)) \<in> insert [] (fst ` set (concat regs))"
proof -
  let ?routes = "map (\<lambda>(t, h). (parsePattern t, h)) (concat regs)"
  have pt: "pt_Text (parsePattern t) = t" for t by (simp add: parsePattern_def Let_def)
  have member: "\<exists>t. p = parsePattern t \<and> (t, h) \<in> set (concat regs)" if "mux_match ?routes m segs = Some (p, h, bs)" for m segs p h bs
    using mux_match_member [OF that] by auto
  show ?thesis
  proof (cases "mux_route ?routes r")
    case (Matched p h bs)
    then have "mux_match ?routes (Method r) (path_segments (EscapedPath (ReqURL r))) = Some (p, h, bs)"
      by (auto simp: mux_route_def Let_def split: if_splits option.splits)
    from member [OF this] obtain t where t: "p = parsePattern t" "(t, h) \<in> set (concat regs)" by blast
    with Matched have "fst (snd (newRouter regs r s)) = t" using assms [OF t(2)] by (simp add: newRouter_def pt)
    moreover have "t \<in> fst ` set (concat regs)" using t(2) by force
    ultimately show ?thesis by simp
  next
    case (RedirectTo t pth)
    let ?segs = "path_segments (cleanPath (EscapedPath (ReqURL r)))"
    from RedirectTo have found: "t = (case mux_match ?routes (Method r) ?segs of None \<Rightarrow> [] | Some (p, h, bs) \<Rightarrow> pt_Text p)"
      by (auto simp: mux_route_def Let_def split: if_split_asm option.split_asm)
    have "t \<in> insert [] (fst ` set (concat regs))"
    proof (cases "mux_match ?routes (Method r) ?segs")
      case None
      with found show ?thesis by simp
    next
      case (Some x)
      then obtain p h bs where x: "mux_match ?routes (Method r) ?segs = Some (p, h, bs)" by (cases x) auto
      from member [OF x] obtain t' where "p = parsePattern t'" "(t', h) \<in> set (concat regs)" by blast
      with found x show ?thesis by (force simp: pt)
    qed
    with RedirectTo show ?thesis by (simp add: newRouter_def)
  qed (simp_all add: newRouter_def)
qed

lemma on_pool_pattern: "fst (snd (on_pool f r s)) = Pattern r"
  by (simp add: on_pool_def split: go.splits prod.splits)

lemma Proxy_handler_pattern: "fst (snd (Proxy_handler P h sel r s)) = Pattern r"
  by (simp add: Proxy_handler_def split: prod.splits go.splits reply.splits)

lemma front_label:
  "routeLabel (fst (snd (newRouter [Proxy_Routes P h sel, HealthHandler_Routes] r s)))
     \<in> {''/'', ''GET /healthz'', ''GET /readyz'', ''unmatched''}"
proof -
  have "fst (snd (newRouter [Proxy_Routes P h sel, HealthHandler_Routes] r s))
      \<in> insert [] (fst ` set (concat [Proxy_Routes P h sel, HealthHandler_Routes]))"
    by (rule newRouter_pattern)
      (auto simp: Proxy_Routes_def HealthHandler_Routes_def on_pool_pattern Proxy_handler_pattern)
  then show ?thesis by (auto simp: Proxy_Routes_def HealthHandler_Routes_def routeLabel_def)
qed

lemma api_label:
  "routeLabel (fst (snd (newRouter [BackendHandler_Routes P] r s)))
     \<in> {''GET /backends'', ''POST /backends'', ''DELETE /backends/{instanceID}'', ''unmatched''}"
proof -
  have "fst (snd (newRouter [BackendHandler_Routes P] r s)) \<in> insert [] (fst ` set (concat [BackendHandler_Routes P]))"
    by (rule newRouter_pattern) (auto simp: BackendHandler_Routes_def on_pool_pattern)
  then show ?thesis by (auto simp: BackendHandler_Routes_def routeLabel_def)
qed

text \<open>
  C30. What the request counter is told.  A request to the balancer or to the management API that is
  answered is counted once, after its handler; the path label is one of the patterns of that
  server, or \<open>unmatched\<close>, whatever the client asks for, so paths create no time series.  The method
  label is the client's own word: since the pattern \<open>/\<close> takes every method, a client gets a new
  series for each method it makes up.
\<close>

theorem request_labels:
  assumes "Pattern r = []"
  shows "(\<exists>path\<in>{''/'', ''GET /healthz'', ''GET /readyz'', ''unmatched''}.
      balancer_front P cfg r s = reported (increment P) path (Method r)
        (newRouter [Proxy_Routes P (front_handler cfg) (ProxySelector cfg), HealthHandler_Routes] (limited cfg r) s)) \<and>
    (\<exists>path\<in>{''GET /backends'', ''POST /backends'', ''DELETE /backends/{instanceID}'', ''unmatched''}.
      registry_api P token cfg r s = reported (increment P) path (Method r)
        (bearerAuth token (newRouter [BackendHandler_Routes P]) (limited cfg r) s)) \<and>
    (\<forall>m. balancer_front P cfg (path_request m ''/'' []) s = reported (increment P) ''/'' m
        (Proxy_handler P (front_handler cfg) (ProxySelector cfg)
          (routed_to ''/'' [] (limited cfg (path_request m ''/'' []))) s))"
proof (intro conjI allI)
  show "\<exists>path\<in>{''/'', ''GET /healthz'', ''GET /readyz'', ''unmatched''}.
      balancer_front P cfg r s = reported (increment P) path (Method r)
        (newRouter [Proxy_Routes P (front_handler cfg) (ProxySelector cfg), HealthHandler_Routes] (limited cfg r) s)"
    by (rule bexI [OF _ front_label [of P "front_handler cfg" "ProxySelector cfg" "limited cfg r" s]])
      (simp add: balancer_front_eq requestMetrics_reported front_handler_def)
  have auth: "bearerAuth token (newRouter [BackendHandler_Routes P]) (limited cfg r) s =
      (if authorized token r then newRouter [BackendHandler_Routes P] (limited cfg r) s
       else (s, [], Ret (ops_of unauthorized)))"
    using assms by (simp add: bearerAuth_def authorized_def)
  show "\<exists>path\<in>{''GET /backends'', ''POST /backends'', ''DELETE /backends/{instanceID}'', ''unmatched''}.
      registry_api P token cfg r s = reported (increment P) path (Method r)
        (bearerAuth token (newRouter [BackendHandler_Routes P]) (limited cfg r) s)"
  proof (cases "authorized token r")
    case True
    then show ?thesis
      by (intro bexI [OF _ api_label [of P "limited cfg r" s]])
        (simp add: registry_api_cases requestMetrics_reported auth)
  next
    case False
    then show ?thesis using assms
      by (intro bexI [of _ "''unmatched''"])
        (simp_all add: registry_api_cases auth reported_def routeLabel_def ops_of_def unauthorized_def http_Error_def)
  qed
  fix m
  have "proxied (path_request m ''/'' [])" by (simp add: proxied_def sample_paths)
  then show "balancer_front P cfg (path_request m ''/'' []) s = reported (increment P) ''/'' m
        (Proxy_handler P (front_handler cfg) (ProxySelector cfg)
          (routed_to ''/'' [] (limited cfg (path_request m ''/'' []))) s)"
    by (simp add: balancer_front_proxied requestMetrics_reported Proxy_handler_pattern)
      (simp add: routed_to_def routeLabel_def)
qed

lemma request_labels_witness:
  "\<exists>path\<in>{''/'', ''GET /healthz'', ''GET /readyz'', ''unmatched''}.
     balancer_front sample_platform sample_cfg (path_request ''BREW'' ''/'' []) (sample_system pair_world) =
       reported (increment sample_platform) path ''BREW''
         (newRouter [Proxy_Routes sample_platform (front_handler sample_cfg) (ProxySelector sample_cfg), HealthHandler_Routes]
           (limited sample_cfg (path_request ''BREW'' ''/'' [])) (sample_system pair_world))"
proof -
  have "Pattern (path_request ''BREW'' ''/'' []) = []" by (simp add: path_request_def sample_request_def)
  from conjunct1 [OF request_labels [OF this]] show ?thesis by simp
qed

text \<open>The first round of the prober on the pool a valid configuration gives.\<close>

definition first_probed :: "probe_config \<Rightarrow> (nat \<Rightarrow> string \<Rightarrow> nat option) \<Rightarrow> backend list \<Rightarrow> backend list" where
  "first_probed pc http bs =
     map (\<lambda>k. (bs ! k)\<lparr>healthy := good (http k (target_of pc (the (URL (bs ! k)))))\<rparr>) [0..<length bs]"

lemma track_initial: "1 \<le> H \<Longrightarrow> 1 \<le> U \<Longrightarrow> snd (track H U True ok (0, False)) = ok"
  by (simp add: track_def verdict_def)

lemma probe_boot:
  assumes "reg_ok (boot bs)" and "\<forall>b\<in>set bs. \<not> healthy b" and "thresholds_ok pc"
  obtains w st where "ProbeOnce abs_reg SetHealthy pc http (\<lambda>w. w) (boot bs, Map.empty) = Ret (w, st)"
    "reg_ok w" "abs_reg w = first_probed pc http bs"
proof (cases "bs = []")
  case True
  with assms(1) that [of "boot []" Map.empty] show ?thesis
    by (simp add: ProbeOnce_def probeRound_def boot_facts first_probed_def)
next
  case False
  have "streaks_ok pc Map.empty" using streaks_ok_empty [OF assms(3)] .
  from reg.probe_round [where meanwhile = "\<lambda>w. w" and http = http and initial = True, OF assms(1,1,3) this]
  obtain w st where r: "probeRound abs_reg SetHealthy pc http (\<lambda>w. w) True (boot bs, Map.empty) = Ret (w, st)" "reg_ok w"
    "streaks_ok pc st" "dom st \<subseteq> InstanceID ` set (abs_reg (boot bs))"
    "abs_reg (boot bs) = [] \<or> map InstanceID (abs_reg w) = map InstanceID (abs_reg (boot bs))"
    "abs_reg (boot bs) = [] \<or> map static (abs_reg w) = map static (abs_reg (boot bs))"
    "\<forall>k<length (abs_reg (boot bs)). InstanceID (abs_reg (boot bs) ! k) \<in> InstanceID ` set (abs_reg (boot bs)) \<longrightarrow>
      (\<exists>ok. probe pc (http k) (abs_reg (boot bs) ! k) = Ret ok \<and>
         tracked abs_reg (w, st) (InstanceID (abs_reg (boot bs) ! k)) =
         track_with pc True ok (tracked abs_reg (boot bs, Map.empty) (InstanceID (abs_reg (boot bs) ! k))))" .
  from r(6) False have static: "map static (abs_reg w) = map static bs" by (simp add: boot_facts)
  note same = static_maps [OF static]
  from static have len: "length (abs_reg w) = length bs" by (metis length_map)
  have "abs_reg w ! k = first_probed pc http bs ! k" if k: "k < length bs" for k
  proof -
    obtain ok where ok: "probe pc (http k) (bs ! k) = Ret ok"
      "tracked abs_reg (w, st) (InstanceID (bs ! k)) =
        track_with pc True ok (tracked abs_reg (boot bs, Map.empty) (InstanceID (bs ! k)))"
      using r(7) k by (auto simp: boot_facts)
    have "tracked abs_reg (boot bs, Map.empty) (InstanceID (bs ! k)) = (0, False)"
      using assms(2) by (auto simp: tracked_def streak_of_def health_of_def boot_facts)
    with ok(2) assms(3) have "snd (tracked abs_reg (w, st) (InstanceID (bs ! k))) = ok"
      by (simp add: thresholds_ok_def track_initial)
    then have "health_of (abs_reg w) (InstanceID (abs_reg w ! k)) = ok"
      using same(3) k len by (metis tracked_def fst_conv snd_conv nth_map)
    moreover have "health_of (abs_reg w) (InstanceID (abs_reg w ! k)) = healthy (abs_reg w ! k)"
      unfolding health_of_def using reg.view_unique [OF r(2)] k len by (metis nth_mem)
    moreover have "ok = good (http k (target_of pc (the (URL (bs ! k)))))"
      using ok(1) by (auto simp: probe_def good_def target_of_def split: option.splits)
    ultimately have "healthy (abs_reg w ! k) = good (http k (target_of pc (the (URL (bs ! k)))))" by simp
    moreover have "static (abs_reg w ! k) = static (bs ! k)" using static k len by (metis nth_map)
    ultimately show ?thesis using k static_eqD by (simp add: first_probed_def)
  qed
  then have "abs_reg w = first_probed pc http bs"
    using len by (intro nth_equalityI) (simp_all add: first_probed_def)
  with r(1,2) that show ?thesis by (simp add: ProbeOnce_def)
qed


text \<open>The servers of a configuration, and the startup with a metrics registry that keeps its laws.\<close>

definition started_servers :: "'x platform \<Rightarrow> (string \<Rightarrow> string) \<Rightarrow> config \<Rightarrow> 'x system http_server list" where
  "started_servers P getenv cfg =
     (let mw = commonMiddleware (counting (increment P)) (ProxyBodyLimit cfg)
      in [startMetricsRegistryServer P mw cfg, startRegistryServer P (chain [mw, bearerAuth (RegistryToken getenv)]) cfg,
          startBalancerServer P mw cfg])"

lemma bootstrap_Run_metrics:
  assumes "loadConfig rf yaml (url_parse P) flag = Inr cfg"
    and "registry_laws (new_registry P) (must_register P) registered"
    and "runProber http (boot (DomainBackends (url_parse P) uid cfg)) cfg = Ret (pc, w, st)"
  shows "\<exists>x. bootstrap_Run P rf yaml getenv uid http e flag =
      Inr (Ret ((pc, st), \<lparr>pool = w, env = e\<lparr>outside := x\<rparr>, history = []\<rparr>, started_servers P getenv cfg)) \<and>
    registered x = [GoCollector, ProcessCollector, request_counter]"
  using metrics_wiring [OF assms(2), of "outside e" "count_request (increment P)"] assms(1,3)
  by (auto simp: bootstrap_Run_def started_servers_def Let_def)

lemma first_probed_facts:
  "length (first_probed pc http bs) = length bs" "map Weight (first_probed pc http bs) = map Weight bs"
  by (auto simp: first_probed_def intro: nth_equalityI)

lemma startup_state:
  assumes "loadConfig rf yaml (url_parse P) flag = Inr cfg"
    and "inj uid" and "length (cfg_Backends cfg) < 2 ^ 32"
    and "registry_laws (new_registry P) (must_register P) registered"
  shows "\<exists>pc st s metrics api front.
    bootstrap_Run P rf yaml getenv uid http e flag = Inr (Ret ((pc, st), s, [metrics, api, front])) \<and>
    abs_reg (pool s) = first_probed pc http (DomainBackends (url_parse P) uid cfg) \<and>
    reg_ok (pool s) \<and> sel_ok (pool s) \<and> rr_ok (pool s) \<and> history s = [] \<and> env s = e\<lparr>outside := outside (env s)\<rparr> \<and>
    registered (outside (env s)) = [GoCollector, ProcessCollector, request_counter] \<and>
    distinct [Addr metrics, Addr api, Addr front] \<and>
    Handler api = registry_api P (RegistryToken getenv) cfg \<and> Handler front = balancer_front P cfg"
proof -
  let ?bs = "DomainBackends (url_parse P) uid cfg" and ?pc = "withDefaults (HealthConfig cfg)"
  from Load_valid [OF assms(1) [unfolded loadConfig_def]] have v: "config_valid (url_parse P) cfg" by (simp add: Validate_valid)
  note boot = boot_DomainBackends [OF v assms(2,3)]
  have "0 \<le> HealthyThreshold (HealthConfig cfg)"
    "0 \<le> UnhealthyThreshold (HealthConfig cfg)"
    using v by (simp_all add: config_valid_def HealthConfig_def)
  from withDefaults_positive(3) [OF this] have th: "thresholds_ok ?pc" .
  have "\<forall>b\<in>set ?bs. \<not> healthy b" using DomainBackends_valid(2) [OF v] by (auto simp: Healthy_def)
  from probe_boot [OF boot(1) this th, of http] obtain w st where
    once: "ProbeOnce abs_reg SetHealthy ?pc http (\<lambda>w. w) (boot ?bs, Map.empty) = Ret (w, st)"
    and w: "reg_ok w" "abs_reg w = first_probed ?pc http ?bs" .
  have len: "length (listed w) = length (cfg_Backends cfg)"
    using w(2) first_probed_facts(1) [of ?pc http ?bs] by (metis DomainBackends_def abs_reg_def length_domain_backends length_map)
  have "weight_ok b" if "b \<in> set (abs_reg w)" for b
    using that DomainBackends_valid(1) [OF v] nth_mem unfolding w(2)
    by (fastforce simp: first_probed_def weight_ok_def)
  then have "weights_ok w" by (simp add: weights_ok_def)
  with w(1) len assms(3) have ok: "sel_ok w" "rr_ok w" by (simp_all add: sel_ok_def rr_ok_def reg_ok_def)
  have prober: "runProber http (boot ?bs) cfg = Ret (?pc, w, st)"
    using once by (simp add: runProber_def NewProber_def)
  have addrs: "distinct [Addr (startMetricsRegistryServer P mw cfg), Addr (startRegistryServer P mw' cfg),
      Addr (startBalancerServer P mw cfg)]" for mw mw'
    using valid_ports [OF v]
    by (simp add: startMetricsRegistryServer_def startRegistryServer_def startBalancerServer_def server_New_def
        Let_def Itoa_inj)
  from bootstrap_Run_metrics [OF assms(1,4) prober] obtain x where
    "bootstrap_Run P rf yaml getenv uid http e flag = Inr (Ret ((?pc, st), \<lparr>pool = w, env = e\<lparr>outside := x\<rparr>, history = []\<rparr>,
      started_servers P getenv cfg))" "registered x = [GoCollector, ProcessCollector, request_counter]" by blast
  then show ?thesis
    using w ok addrs by (simp add: started_servers_def Let_def registry_api_def balancer_front_def)
qed

end
