(* ===== verification/System.thy ===== *)
theory System
  imports Servers Failover
begin

text \<open>
  The running program as a whole: from the state \<open>bootstrap_Run\<close> leaves, requests to the
  management API, requests to the balancer, ticks of the prober and changes outside the program
  follow each other in any order.  While a request or a probe waits for the network, the other
  goroutines go on; all they can do to the pool are the registry's operations and changes of
  connection counts, which is the relation \<open>pool_step\<close>.  Every step of the program refines steps
  of this relation, so what pool steps keep holds in every reachable state.
\<close>

section \<open>What goroutines do to the pool\<close>

definition registrable :: "url \<Rightarrow> u64 \<Rightarrow> bool" where
  "registrable u wt \<longleftrightarrow> url_Scheme u \<in> {''http'', ''https''} \<and> url_Host u \<noteq> [] \<and> 1 \<le> unat wt \<and> unat wt \<le> 1000000"

text \<open>Room for one more backend: the pool never outgrows 32-bit indices.\<close>

definition has_room :: "world \<Rightarrow> bool" where
  "has_room w \<longleftrightarrow> Suc (length (listed w)) < 2 ^ 32"

inductive pool_step :: "(nat \<Rightarrow> nat) \<Rightarrow> world \<Rightarrow> world \<Rightarrow> bool" for growth where
  pool_add: "registrable u wt \<Longrightarrow> has_room w \<Longrightarrow> uid \<notin> InstanceID ` set (abs_reg w) \<Longrightarrow>
    AddNewBackend growth uid u wt w = Ret (w', r) \<Longrightarrow> pool_step growth w w'"
| pool_remove: "RemoveInstanceByID growth i w = Ret (w', r) \<Longrightarrow> pool_step growth w w'"
| pool_report: "SetHealthy i v w = (w', r) \<Longrightarrow> pool_step growth w w'"
| pool_count: "pool_step growth w (add_conns p d w)"

abbreviation pool_steps :: "(nat \<Rightarrow> nat) \<Rightarrow> world \<Rightarrow> world \<Rightarrow> bool" where
  "pool_steps growth \<equiv> (pool_step growth)\<^sup>*\<^sup>*"

text \<open>What holds of the pool at any time.\<close>

definition pool_wf :: "world \<Rightarrow> bool" where
  "pool_wf w \<longleftrightarrow> pool_ok w \<and> length (listed w) < 2 ^ 32"

lemma pool_wfD:
  assumes "pool_wf w"
  shows "reg_ok w" and "sel_ok w" and "rr_ok w" and "sendable w" and "mem_ok w"
  using assms
  by (auto simp: pool_wf_def pool_ok_def sel_ok_def rr_ok_def reg_ok_def sendable_def abs_reg_def mem_ok_def)

lemma listed_add_conns [simp]: "listed (add_conns p d w) = listed w" "brk (add_conns p d w) = brk w"
  by (simp_all add: add_conns_def listed_def ListBackends_def)

text \<open>Identity, URL and weight of a backend, and not its health or its connection count.\<close>

definition identity_of :: "backend \<Rightarrow> string \<times> url option \<times> u64" where
  "identity_of b = (InstanceID b, URL b, Weight b)"

lemma pool_wf_identity:
  assumes "map identity_of (abs_reg w') = map identity_of (abs_reg w)" and "mem_ok w'"
    and "backends w' \<noteq> None" and "pool_wf w"
  shows "pool_wf w'"
proof -
  have "map InstanceID (abs_reg w') = map InstanceID (abs_reg w)"
    using arg_cong [OF assms(1), of "map fst"] by (simp add: identity_of_def comp_def)
  moreover have len: "length (listed w') = length (listed w)"
    using arg_cong [OF assms(1), of length] by (simp add: abs_reg_def)
  moreover have "\<exists>c\<in>set (abs_reg w). identity_of b = identity_of c" if "b \<in> set (abs_reg w')" for b
    using arg_cong [OF assms(1), of set] that by auto
  ultimately show ?thesis using assms(2-4)
    by (fastforce simp: pool_wf_def pool_ok_def reg_ok_def weights_ok_def weight_ok_def identity_of_def)
qed

lemma pool_step_wf:
  assumes "pool_step growth w w'" and wf: "pool_wf w"
  shows "pool_wf w' \<and> brk w \<le> brk w' \<and> set (listed w') \<subseteq> set (listed w) \<union> {brk w..<brk w'}"
  using assms(1)
proof (cases rule: pool_step.cases)
  case (pool_add u wt uid r)
  note ok = pool_wfD [OF wf]
  from reg.add_result [OF ok(1) pool_add(3,4)] have ok': "reg_ok w'" and "(abs_reg w', r) = spec_add uid u wt (abs_reg w)"
    by blast+
  then have "abs_reg w' = abs_reg w \<or> abs_reg w' = abs_reg w @ [NewBackend uid (Some u) wt]"
    by (auto simp: spec_add_def split: if_splits)
  moreover have "length (listed w') = length (abs_reg w')" by (simp add: abs_reg_def)
  moreover have "length (listed w) = length (abs_reg w)" by (simp add: abs_reg_def)
  ultimately have "pool_wf w'" using wf ok' pool_add(1,2)
    by (auto simp: pool_wf_def pool_ok_def weights_ok_def weight_ok_def registrable_def has_room_def)
  moreover from ok(5) pool_add(4) have "brk w \<le> brk w' \<and> set (listed w') \<subseteq> set (listed w) \<union> {brk w..<brk w'}"
    by (cases rule: AddNewBackend_cases) auto
  ultimately show ?thesis by blast
next
  case (pool_remove i r)
  note ok = pool_wfD [OF wf]
  from reg.remove_result [OF ok(1) pool_remove] have "reg_ok w'" "abs_reg w' = filter (\<lambda>b. InstanceID b \<noteq> i) (abs_reg w)"
    by (auto simp: spec_remove_def)
  moreover from this(2) have "length (listed w') \<le> length (listed w)"
    by (metis abs_reg_def length_filter_le length_map)
  ultimately have "pool_wf w'" using wf by (auto simp: pool_wf_def pool_ok_def weights_ok_def)
  moreover from ok(5) pool_remove have "brk w \<le> brk w' \<and> set (listed w') \<subseteq> set (listed w) \<union> {brk w..<brk w'}"
    by (cases rule: RemoveInstanceByID_cases) auto
  ultimately show ?thesis by blast
next
  case (pool_report i v r)
  note ok = pool_wfD(1) [OF wf]
  have w': "w' = fst (SetHealthy i v w)" using pool_report by simp
  have "map identity_of (abs_reg w') = map identity_of (abs_reg w)"
    unfolding w' SetHealthy_abs(1) [OF ok] by (simp add: identity_of_def)
  moreover have "reg_ok w'" unfolding w' by (rule SetHealthy_reg_ok [OF ok])
  ultimately have "pool_wf w'" using wf by (simp add: pool_wf_identity reg_ok_def)
  then show ?thesis unfolding w' SetHealthy_abs(3,5) [OF ok] by simp
next
  case (pool_count p d)
  have "mem_ok w'" "backends w' \<noteq> None"
    using pool_wfD(1) [OF wf] unfolding pool_count by (auto simp: reg_ok_def mem_ok_def add_conns_def listed_def ListBackends_def)
  moreover have "map identity_of (abs_reg w') = map identity_of (abs_reg w)"
    unfolding pool_count by (auto simp: abs_reg_def identity_of_def add_conns_def listed_def ListBackends_def)
  ultimately have "pool_wf w'" using wf by (blast intro: pool_wf_identity)
  with pool_count show ?thesis by simp
qed

lemma pool_steps_wf:
  "pool_steps growth w w' \<Longrightarrow> pool_wf w \<Longrightarrow>
    pool_wf w' \<and> brk w \<le> brk w' \<and> set (listed w') \<subseteq> set (listed w) \<union> {brk w..<brk w'}"
proof (induction rule: rtranclp_induct)
  case base
  then show ?case by simp
next
  case (step w1 w2)
  from step.IH [OF step.prems] have "pool_wf w1" by blast
  from pool_step_wf [OF step.hyps(2) this] step.IH [OF step.prems] show ?case by fastforce
qed

section \<open>What the configured balancer picks\<close>

text \<open>Whatever the counter and the draws: no panic, and a returned backend is healthy at that moment.\<close>

lemma RoundRobin_get_sound: "snd (Rotate RoundRobin_get r w e) = Ret (Inr p) \<Longrightarrow> p \<in> set (ListHealthyBackends w)"
  by (auto simp: Rotate_def RoundRobin_get_def split: prod.splits intro: RoundRobin_sound [where current = "current e"])

lemma configured_pick:
  assumes "pool_wf w" and "ProxySelector c r w e = (e', res)"
  shows "\<exists>x. res = Ret x \<and> (\<forall>p. x = Inr p \<longrightarrow> p \<in> set (ListHealthyBackends w))"
proof -
  note ok = pool_wfD(2) [OF assms(1)]
  consider "snd (ByClientIP Hash_get_for_key (TrustedProxies c) r w e) = res"
    | "snd (Rotate LeastConnections_get r w e) = res" | "snd (Rotate Random_get r w e) = res"
    | "snd (Rotate RoundRobin_get r w e) = res"
    using ProxySelector_cases [of c] assms(2) by (metis snd_conv)
  then show ?thesis
  proof cases
    case 4
    then obtain x where "res = Ret x" by (auto simp: Rotate_def RoundRobin_get_def split: prod.splits)
    with 4 RoundRobin_get_sound [of r w e] show ?thesis by auto
  qed (cases "ListHealthyBackends w = []"; use ok in
    \<open>auto simp: ByClientIP_def Hash_get_for_key_def Rotate_def LeastConnections_get_def Random_get_def sel_simps
      intro: walk_or_last_member MinFunc_member\<close>)+
qed

section \<open>A request to the balancer\<close>

text \<open>The network leaves the program's memory alone; what changes it meanwhile is the other goroutines.\<close>

definition network_ok :: "'x platform \<Rightarrow> bool" where
  "network_ok P \<longleftrightarrow> (\<forall>target out w e. pool_steps (grow P) w (fst (fst (round_trip P target out (w, e)))))"

lemma pool_count_twice: "pool_steps g w (add_conns p d (add_conns q c w))"
  by (meson pool_count r_into_rtranclp rtranclp.rtrancl_into_rtrancl)

lemma proxyOnce_steps:
  assumes "proxyOnce h rt r target s = (s', res)"
    and net: "\<And>target out w e. pool_steps g w (fst (fst (rt target out (w, e))))"
  shows "pool_steps g (pool s) (pool s')"
  using assms(1)
proof (cases rule: proxyOnce_cases)
  case nil
  then show ?thesis by (auto intro: pool_count_twice)
next
  case unsent
  then show ?thesis by (auto intro: pool_count_twice)
next
  case (sent u out w' outcome)
  have "pool_steps g (add_conns target 1 (pool s)) w'"
    using net [of "add_conns target 1 (pool s)" target out "env s"] sent(4) by simp
  then have "pool_steps g (pool s) w'" by (metis pool_count converse_rtranclp_into_rtranclp)
  with sent(5) show ?thesis by (metis pool_count rtranclp.rtrancl_into_rtrancl)
qed

lemma proxyOnce_tries:
  assumes "proxyOnce h rt r target s = (s', res)" and "target \<noteq> 0" and "URL (cells (pool s) target) \<noteq> None"
  shows "(\<exists>a. history s' = history s @ [a] \<and> att_target a = target) \<and> (\<forall>p. res = Panic p \<longrightarrow> p = AbortHandler)"
  using assms(1)
  by (cases rule: proxyOnce_cases) (use assms(2,3) in \<open>auto split: upstream.splits\<close>)

text \<open>An attempt is made on a backend that was healthy in some state the pool went through meanwhile.\<close>

definition tried_healthy :: "(nat \<Rightarrow> nat) \<Rightarrow> world \<Rightarrow> attempt \<Rightarrow> bool" where
  "tried_healthy g w a \<longleftrightarrow> (\<exists>w'. pool_steps g w w' \<and> att_target a \<in> set (ListHealthyBackends w'))"

lemma tried_healthy_later: "pool_steps g w w' \<Longrightarrow> tried_healthy g w' a \<Longrightarrow> tried_healthy g w a"
  by (auto simp: tried_healthy_def intro: rtranclp_trans)

lemma serve_run_system:
  assumes "serve_run h (ProxySelector c) rt cancelled att r s s' res" and "pool_wf (pool s)"
    and net: "\<And>target out w e. pool_steps g w (fst (fst (rt target out (w, e))))"
  shows "pool_steps g (pool s) (pool s') \<and> (\<forall>p. res = Panic p \<longrightarrow> p = AbortHandler) \<and>
    (\<exists>new. history s' = history s @ new \<and> (\<forall>a\<in>set new. tried_healthy g (pool s) a))"
  using assms(1,2)
proof (induction rule: serve_run.induct)
  case (sel_panic att r s r1 e1 p)
  from configured_pick [OF sel_panic(5,4)] show ?case by simp
next
  case (attempt_panic att r s r1 e1 target s2 p)
  from configured_pick [OF attempt_panic(6,4)] have t: "target \<in> set (ListHealthyBackends (pool s))" by simp
  from sendable_member [OF pool_wfD(4) [OF attempt_panic(6)] t] proxyOnce_tries [OF attempt_panic(5)]
    proxyOnce_steps [OF attempt_panic(5) net] t
  show ?case by (auto simp: tried_healthy_def)
next
  case (served att r s r1 e1 target s2 resp)
  from configured_pick [OF served(6,4)] have t: "target \<in> set (ListHealthyBackends (pool s))" by simp
  from sendable_member [OF pool_wfD(4) [OF served(6)] t] proxyOnce_tries [OF served(5)]
    proxyOnce_steps [OF served(5) net] t
  show ?case by (auto simp: tried_healthy_def)
next
  case (failover att r s r1 e1 target s2 s' res)
  from configured_pick [OF failover(8,4)] have t: "target \<in> set (ListHealthyBackends (pool s))" by simp
  from proxyOnce_steps [OF failover(5) net] have steps: "pool_steps g (pool s) (pool s2)" by simp
  from sendable_member [OF pool_wfD(4) [OF failover(8)] t] proxyOnce_tries [OF failover(5)]
  obtain a where a: "history s2 = history s @ [a]" "att_target a = target" by auto
  from failover.IH pool_steps_wf [OF steps failover(8)] obtain new where
    IH: "pool_steps g (pool s2) (pool s')" "\<forall>p. res = Panic p \<longrightarrow> p = AbortHandler"
      "history s' = history s2 @ new" "\<forall>a\<in>set new. tried_healthy g (pool s2) a" by blast
  have "tried_healthy g (pool s) a" using t a(2) by (auto simp: tried_healthy_def)
  with IH a steps tried_healthy_later [OF steps] show ?case by (auto intro: rtranclp_trans)
qed auto

lemma ServeHTTP_system:
  assumes "ServeHTTP h (ProxySelector c) rt cancelled r s = (s', res)" and "pool_wf (pool s)"
    and net: "\<And>target out w e. pool_steps g w (fst (fst (rt target out (w, e))))"
  shows "pool_steps g (pool s) (pool s') \<and> (\<forall>p. res = Panic p \<longrightarrow> p = AbortHandler) \<and>
    (\<exists>new. history s' = history s @ new \<and> (\<forall>a\<in>set new. tried_healthy g (pool s) a))"
  using assms(1)
proof (cases rule: ServeHTTP_run)
  case no_body
  from serve_run_system [OF no_body(2) assms(2) net] show ?thesis by blast
next
  case (body b)
  from serve_run_system [OF body(2) assms(2) net] show ?thesis by blast
qed simp

text \<open>What a request does to the state, and with which of the given panics it may end.\<close>

definition request_effect ::
    "(nat \<Rightarrow> nat) \<Rightarrow> go_panic set \<Rightarrow> 'x system \<Rightarrow> 'x system \<times> string \<times> writer_op list go \<Rightarrow> bool" where
  "request_effect g panics s out \<longleftrightarrow> pool_steps g (pool s) (pool (fst out)) \<and>
     (\<forall>p. snd (snd out) = Panic p \<longrightarrow> p \<in> panics) \<and>
     (\<exists>new. history (fst out) = history s @ new \<and> (\<forall>a\<in>set new. tried_healthy g (pool s) a))"

lemma request_effect_metrics:
  "request_effect g A s (requestMetrics (counting inc) next r s) = request_effect g A s (next r s)"
  by (simp add: request_effect_def requestMetrics_pool requestMetrics_reply)

lemma request_effect_quiet [simp]: "request_effect g A s (s, t, Ret ops)"
  by (simp add: request_effect_def)

lemma Proxy_handler_effect:
  assumes "pool_wf (pool s)" and "network_ok P"
  shows "request_effect (grow P) {AbortHandler} s (Proxy_handler P h (ProxySelector c) r s)"
proof -
  obtain s' res where run: "ServeHTTP h (ProxySelector c) (round_trip P) (client_gone P) r s = (s', res)" by fastforce
  have "pool_steps (grow P) w (fst (fst (round_trip P target out (w, e))))" for target out w e
    using assms(2) by (simp add: network_ok_def)
  from ServeHTTP_system [OF run assms(1) this] run show ?thesis
    by (auto simp: request_effect_def Proxy_handler_def split: go.splits reply.splits)
qed

lemma balancer_front_effect:
  assumes "pool_wf (pool s)" and "network_ok P"
  shows "request_effect (grow P) {AbortHandler} s (balancer_front P cfg r s)"
proof (cases "canonical r")
  case True
  then show ?thesis using Proxy_handler_effect [OF assms]
    by (simp add: balancer_front_eq request_effect_metrics balancer_router on_pool_read)
next
  case False
  with newRouter_redirect [of "limited cfg r"
      "[Proxy_Routes P (NewHandler (bal_MaxRetries (cfg_Balancer cfg)) (TrustedProxies cfg)) (ProxySelector cfg),
        HealthHandler_Routes]" s]
  show ?thesis by (auto simp: balancer_front_eq request_effect_metrics)
qed

section \<open>A request to the management API\<close>

definition fresh_uuid :: "'x platform \<Rightarrow> 'x system \<Rightarrow> bool" where
  "fresh_uuid P s \<longleftrightarrow> new_uuid P (outside (env s)) \<notin> InstanceID ` set (abs_reg (pool s))"

lemma register_effect:
  assumes wf: "pool_wf (pool s)" and fresh: "uid \<notin> InstanceID ` set (abs_reg (pool s))"
    and room: "has_room (pool s)" and body: "Body r = Some b"
  shows "request_effect g {} s (on_pool (register jd up errtext g uid) r s)"
proof (cases "parseRegisterBackendReq jd up b")
  case (Inl e)
  then show ?thesis using body by (simp add: on_pool_def register_def)
next
  case (Inr uw)
  obtain u wt where uw: "uw = (u, wt)" by fastforce
  from parse_accepts [OF Inr [unfolded uw]] have "registrable u wt" by (simp add: registrable_def)
  moreover from reg.add_law [OF pool_wfD(1) [OF wf] fresh] obtain w' res where
    add: "AddNewBackend g uid u wt (pool s) = Ret (w', res)" by blast
  ultimately have "pool_step g (pool s) w'" using room fresh by (blast intro: pool_add)
  then show ?thesis using Inr uw add body
    by (auto simp: on_pool_def register_def request_effect_def split: sum.splits)
qed

lemma deregister_effect:
  assumes "pool_wf (pool s)"
  shows "request_effect g {} s (on_pool (deregister g) r s)"
proof -
  from reg.remove_law [OF pool_wfD(1) [OF assms]] obtain w' res where
    rem: "RemoveInstanceByID g (PathInstanceID r) (pool s) = Ret (w', res)" by blast
  then have "pool_step g (pool s) w'" by (rule pool_remove)
  then show ?thesis using rem by (auto simp: on_pool_def deregister_def request_effect_def Let_def)
qed

lemma registry_api_effect:
  assumes wf: "pool_wf (pool s)" and "fresh_uuid P s" and "has_room (pool s)" and body: "Body r \<noteq> None"
  shows "request_effect (grow P) {} s (registry_api P token cfg r s)"
proof (cases "authorized token r")
  case False
  then show ?thesis by (simp add: registry_api_cases request_effect_def count_request_def)
next
  case auth: True
  from body obtain b where b: "Body (limited cfg r) = Some b" by (auto simp: limited_def)
  have "request_effect (grow P) {} s (newRouter [BackendHandler_Routes P] (limited cfg r) s)"
  proof (cases "canonical r")
    case True
    with register_effect [OF wf assms(2) [unfolded fresh_uuid_def] assms(3), of "routed_to ''POST /backends'' [] (limited cfg r)" b]
      deregister_effect [OF wf] b
    show ?thesis by (auto simp: api_router on_pool_read routed_to_def split: option.splits)
  next
    case False
    with newRouter_redirect [of "limited cfg r" "[BackendHandler_Routes P]" s] show ?thesis by auto
  qed
  with auth show ?thesis by (simp add: registry_api_cases request_effect_metrics)
qed

section \<open>A tick of the prober\<close>

lemma record_probe_steps: "pool_steps g w (fst (record_probe SetHealthy cfg b ok initial (w, st)))"
proof -
  have "pool_steps g w (fst (SetHealthy i v w))" for i v
    by (rule r_into_rtranclp, rule pool_report, rule prod.collapse [symmetric])
  then show ?thesis by (simp add: record_probe_def Let_def)
qed

lemma records_steps:
  "pool_steps g (fst ws) (fst (fold (\<lambda>(b, ok). record_probe SetHealthy cfg b ok initial) rs ws))"
proof (induction rs arbitrary: ws)
  case (Cons r rs)
  obtain w st b ok where "ws = (w, st)" "r = (b, ok)" by (metis surj_pair)
  with record_probe_steps [of g w cfg b ok initial st] Cons.IH [of "record_probe SetHealthy cfg b ok initial ws"]
  show ?case by (auto intro: rtranclp_trans)
qed simp

lemma probeRound_steps:
  assumes "pool_wf w" and "pool_steps g w (meanwhile w)" and "thresholds_ok cfg" and "streaks_ok cfg st"
  obtains w' st' where "probeRound abs_reg SetHealthy cfg http meanwhile initial (w, st) = Ret (w', st')"
    "pool_steps g w w'" "streaks_ok cfg st'"
    "abs_reg w = [] \<or> map InstanceID (abs_reg w') = map InstanceID (abs_reg (meanwhile w))"
proof -
  from pool_steps_wf [OF assms(2,1)] have m: "reg_ok (meanwhile w)" using pool_wfD(1) by blast
  obtain w' st' where
    round: "probeRound abs_reg SetHealthy cfg http meanwhile initial (w, st) = Ret (w', st')" "streaks_ok cfg st'"
      "abs_reg w = [] \<or> map InstanceID (abs_reg w') = map InstanceID (abs_reg (meanwhile w))"
    by (rule reg.probe_round [where meanwhile = meanwhile and http = http and initial = initial,
          OF pool_wfD(1) [OF assms(1)] m assms(3,4)], rule that)
  have "pool_steps g w w'"
  proof (cases "abs_reg w = []")
    case True
    with round(1) show ?thesis by (simp add: probeRound_def Let_def)
  next
    case False
    with round(1) obtain oks where
      "fold (\<lambda>(b, ok). record_probe SetHealthy cfg b ok initial) (zip (abs_reg w) oks)
        (meanwhile w, st |` (InstanceID ` set (abs_reg w))) = (w', st')"
      by (auto simp: probeRound_def Let_def)
    with records_steps [of g "(meanwhile w, st |` (InstanceID ` set (abs_reg w)))" cfg initial "zip (abs_reg w) oks"]
    have "pool_steps g (meanwhile w) w'" by simp
    with assms(2) show ?thesis by (rule rtranclp_trans)
  qed
  with that round show thesis by blast
qed

section \<open>Steps of the program\<close>

record 'x running =
  sys :: "'x system"
  probe_streaks :: streaks

text \<open>
  The token and the configuration are those the servers were built from, \<open>pc\<close> the prober's.  A
  new identifier is unused (that is what \<open>uuid.New\<close> is relied on for); the server never passes a
  nil body; \<open>meanwhile\<close> is what other goroutines do to the pool while the probes of a round run.
\<close>

inductive system_step :: "'x platform \<Rightarrow> string \<Rightarrow> config \<Rightarrow> probe_config \<Rightarrow> 'x running \<Rightarrow> 'x running \<Rightarrow> bool"
  for P token cfg pc where
  api_request: "fresh_uuid P (sys s) \<Longrightarrow> has_room (pool (sys s)) \<Longrightarrow> Body r \<noteq> None \<Longrightarrow>
    system_step P token cfg pc s (s\<lparr>sys := fst (registry_api P token cfg r (sys s))\<rparr>)"
| front_request: "system_step P token cfg pc s (s\<lparr>sys := fst (balancer_front P cfg r (sys s))\<rparr>)"
| probe_tick: "pool_steps (grow P) (pool (sys s)) (meanwhile (pool (sys s))) \<Longrightarrow>
    probeRound abs_reg SetHealthy pc http meanwhile False (pool (sys s), probe_streaks s) = Ret (w', st') \<Longrightarrow>
    system_step P token cfg pc s \<lparr>sys = (sys s)\<lparr>pool := w'\<rparr>, probe_streaks = st'\<rparr>"
| elsewhere: "system_step P token cfg pc s (s\<lparr>sys := (sys s)\<lparr>env := e\<rparr>\<rparr>)"

abbreviation system_steps :: "'x platform \<Rightarrow> string \<Rightarrow> config \<Rightarrow> probe_config \<Rightarrow> 'x running \<Rightarrow> 'x running \<Rightarrow> bool" where
  "system_steps P token cfg pc \<equiv> (system_step P token cfg pc)\<^sup>*\<^sup>*"

definition running_ok :: "probe_config \<Rightarrow> 'x running \<Rightarrow> bool" where
  "running_ok pc s \<longleftrightarrow> pool_wf (pool (sys s)) \<and> streaks_ok pc (probe_streaks s)"

definition advances :: "(nat \<Rightarrow> nat) \<Rightarrow> 'x running \<Rightarrow> 'x running \<Rightarrow> bool" where
  "advances g s s' \<longleftrightarrow> pool_steps g (pool (sys s)) (pool (sys s')) \<and>
     (\<exists>new. history (sys s') = history (sys s) @ new \<and> (\<forall>a\<in>set new. tried_healthy g (pool (sys s)) a))"

lemma system_step_advances:
  assumes "system_step P token cfg pc s s'" and "running_ok pc s" and "network_ok P" and "thresholds_ok pc"
  shows "running_ok pc s' \<and> advances (grow P) s s'"
proof -
  from assms(2) have wf: "pool_wf (pool (sys s))" and st: "streaks_ok pc (probe_streaks s)"
    by (simp_all add: running_ok_def)
  from assms(1) have "advances (grow P) s s' \<and> streaks_ok pc (probe_streaks s')"
  proof (cases rule: system_step.cases)
    case (api_request r)
    with registry_api_effect [OF wf api_request(2-4), of token cfg] st show ?thesis
      by (simp add: request_effect_def advances_def)
  next
    case (front_request r)
    with balancer_front_effect [OF wf assms(3), of cfg r] st show ?thesis
      by (simp add: request_effect_def advances_def)
  next
    case (probe_tick meanwhile http w' st')
    from probeRound_steps [where meanwhile = meanwhile and http = http and initial = False, OF wf probe_tick(2) assms(4) st]
    obtain w2 st2 where "probeRound abs_reg SetHealthy pc http meanwhile False (pool (sys s), probe_streaks s) = Ret (w2, st2)"
      "pool_steps (grow P) (pool (sys s)) w2" "streaks_ok pc st2" .
    with probe_tick(1,3) show ?thesis by (simp add: advances_def)
  next
    case (elsewhere e)
    with st show ?thesis by (simp add: advances_def)
  qed
  with pool_steps_wf wf show ?thesis by (auto simp: running_ok_def advances_def)
qed

lemma system_steps_advance:
  assumes "system_steps P token cfg pc s s'" and "running_ok pc s" and "network_ok P" and "thresholds_ok pc"
  shows "running_ok pc s' \<and> advances (grow P) s s'"
  using assms(1)
proof (induction rule: rtranclp_induct)
  case base
  with assms(2) show ?case by (simp add: advances_def)
next
  case (step s1 s2)
  then have one: "running_ok pc s2" "advances (grow P) s1 s2"
    using system_step_advances [OF step.hyps(2) _ assms(3,4)] by blast+
  with step.IH obtain new new' where
    h: "history (sys s1) = history (sys s) @ new" "\<forall>a\<in>set new. tried_healthy (grow P) (pool (sys s)) a"
      "history (sys s2) = history (sys s1) @ new'" "\<forall>a\<in>set new'. tried_healthy (grow P) (pool (sys s1)) a"
    and steps: "pool_steps (grow P) (pool (sys s)) (pool (sys s1))" "pool_steps (grow P) (pool (sys s1)) (pool (sys s2))"
    by (auto simp: advances_def)
  from h steps tried_healthy_later [OF steps(1)] have "advances (grow P) s s2"
    by (auto simp: advances_def intro: rtranclp_trans)
  with one(1) show ?case by simp
qed

section \<open>The state the servers start in\<close>

text \<open>A run of the program: startup succeeded from some configuration, and then any steps.\<close>

definition started :: "'x platform \<Rightarrow> (string \<Rightarrow> string + string) \<Rightarrow> (string \<Rightarrow> string + config) \<Rightarrow> (string \<Rightarrow> string)
    \<Rightarrow> string option \<Rightarrow> config \<Rightarrow> probe_config \<Rightarrow> 'x running \<Rightarrow> bool" where
  "started P rf yaml getenv flag cfg pc s \<longleftrightarrow>
     loadConfig rf yaml (url_parse P) flag = Inr cfg \<and> length (cfg_Backends cfg) < 2 ^ 32 \<and>
     (\<exists>uid http e servers. inj uid \<and>
        bootstrap_Run P rf yaml getenv uid http e flag = Inr (Ret ((pc, probe_streaks s), sys s, servers)))"

lemma DomainBackends_wf:
  assumes "config_valid up c" and "inj uid" and "length (cfg_Backends c) < 2 ^ 32"
  shows "pool_wf (boot (DomainBackends up uid c))"
proof -
  let ?bs = "DomainBackends up uid c"
  have "length (listed (boot ?bs)) = length (cfg_Backends c)"
    by (metis DomainBackends_def abs_reg_def boot_facts(1) length_domain_backends length_map)
  with boot_DomainBackends [OF assms] DomainBackends_valid(3) [OF assms(1)] assms(3) show ?thesis
    by (simp add: pool_wf_def pool_ok_def sel_ok_def boot_facts)
qed

lemma started_ok:
  assumes "started P rf yaml getenv flag cfg pc s"
  shows "running_ok pc s" and "thresholds_ok pc" and "history (sys s) = []"
proof -
  from assms obtain uid http e servers where
    load: "loadConfig rf yaml (url_parse P) flag = Inr cfg" and len: "length (cfg_Backends cfg) < 2 ^ 32"
    and uid: "inj uid"
    and run: "bootstrap_Run P rf yaml getenv uid http e flag = Inr (Ret ((pc, probe_streaks s), sys s, servers))"
    by (auto simp: started_def)
  from Load_valid [OF load [unfolded loadConfig_def]] have v: "config_valid (url_parse P) cfg"
    by (simp add: Validate_valid)
  let ?w = "boot (DomainBackends (url_parse P) uid cfg)" and ?pc = "withDefaults (HealthConfig cfg)"
  have "0 \<le> HealthyThreshold (HealthConfig cfg)"
    "0 \<le> UnhealthyThreshold (HealthConfig cfg)"
    using v by (simp_all add: config_valid_def HealthConfig_def)
  from withDefaults_positive(3) [OF this] have th: "thresholds_ok ?pc" .
  have wf: "pool_wf ?w" by (rule DomainBackends_wf [OF v uid len])
  from probeRound_steps [where meanwhile = "\<lambda>w. w" and http = http and initial = True and g = "grow P",
      OF wf rtranclp.rtrancl_refl th streaks_ok_empty [OF th]]
  obtain w st where round: "probeRound abs_reg SetHealthy ?pc http (\<lambda>w. w) True (?w, \<lambda>_. None) = Ret (w, st)"
    "pool_steps (grow P) ?w w" "streaks_ok ?pc st" .
  with run load obtain x where "pc = ?pc \<and> probe_streaks s = st \<and> \<lparr>pool = w, env = e\<lparr>outside := x\<rparr>, history = []\<rparr> = sys s"
    by (auto simp: bootstrap_Run_def runProber_def NewProber_def ProbeOnce_def Let_def)
  then have "pc = ?pc" "probe_streaks s = st" "pool (sys s) = w" "history (sys s) = []"
    by (metis proxy_state.select_convs)+
  with th round(3) pool_steps_wf [OF round(2) wf]
  show "running_ok pc s" "thresholds_ok pc" "history (sys s) = []" by (simp_all add: running_ok_def)
qed

text \<open>A successful DELETE, seen from outside the middleware.\<close>

lemma api_delete:
  assumes "authorized token r" and "canonical r" and "Method r = ''DELETE''" and "api_target r = Some i"
    and "RemoveInstanceByID (grow P) i (pool s) = Ret (w', True)"
  shows "observed (registry_api P token cfg r s) = ((w', history s), ''DELETE /backends/{instanceID}'',
    Ret (ops_of \<lparr>Status = 200, RespHeader = Map.empty, RespBody = Raw []\<rparr>))"
proof -
  have "segments_of r \<noteq> [''backends'']" using assms(4) by (auto simp: api_target_def)
  then have "observed (registry_api P token cfg r s) =
      observed (on_pool (deregister (grow P)) (routed_to ''DELETE /backends/{instanceID}'' i (limited cfg r)) s)"
    using assms(1-4) by (simp add: registry_api_cases observed_requestMetrics api_router)
  then show ?thesis using api_target_named [OF assms(4)] assms(5)
    by (simp add: on_pool_def deregister_def routed_to_def observed_def)
qed

text \<open>Any configuration that loads starts, for some state, if the metrics can be registered.\<close>

lemma started_exists:
  assumes load: "loadConfig rf yaml (url_parse P) flag = Inr cfg" and len: "length (cfg_Backends cfg) < 2 ^ 32"
    and uid: "inj (uid :: nat \<Rightarrow> string)" and laws: "registry_laws (new_registry P) (must_register P) registered"
  shows "\<exists>pc s. started P rf yaml getenv flag cfg pc s \<and>
    (cfg_Backends cfg \<noteq> [] \<longrightarrow> map InstanceID (abs_reg (pool (sys s))) = map uid [0..<length (cfg_Backends cfg)])"
proof -
  from Load_valid [OF load [unfolded loadConfig_def]] have v: "config_valid (url_parse P) cfg"
    by (simp add: Validate_valid)
  let ?w = "boot (DomainBackends (url_parse P) uid cfg)" and ?pc = "withDefaults (HealthConfig cfg)"
  have "0 \<le> HealthyThreshold (HealthConfig cfg)"
    "0 \<le> UnhealthyThreshold (HealthConfig cfg)"
    using v by (simp_all add: config_valid_def HealthConfig_def)
  from withDefaults_positive(3) [OF this] have th: "thresholds_ok ?pc" .
  from probeRound_steps [where meanwhile = "\<lambda>w. w" and http = "\<lambda>_ _. None" and initial = True and g = "grow P",
      OF DomainBackends_wf [OF v uid len] rtranclp.rtrancl_refl th streaks_ok_empty [OF th]]
  obtain w st where round: "probeRound abs_reg SetHealthy ?pc (\<lambda>_ _. None) (\<lambda>w. w) True (?w, \<lambda>_. None) = Ret (w, st)"
    and ids: "abs_reg ?w = [] \<or> map InstanceID (abs_reg w) = map InstanceID (abs_reg ?w)" .
  have "DomainBackends (url_parse P) uid cfg \<noteq> []" if "cfg_Backends cfg \<noteq> []"
    using that by (metis DomainBackends_def length_0_conv length_domain_backends)
  with ids have "cfg_Backends cfg \<noteq> [] \<longrightarrow> map InstanceID (abs_reg w) = map uid [0..<length (cfg_Backends cfg)]"
    by (auto simp: boot_facts DomainBackends_ids)
  moreover have "runProber (\<lambda>_ _. None) ?w cfg = Ret (?pc, w, st)"
    using round by (simp add: runProber_def NewProber_def ProbeOnce_def)
  from bootstrap_Run_metrics [OF load laws this] obtain e x where
    "bootstrap_Run P rf yaml getenv uid (\<lambda>_ _. None) e flag =
      Inr (Ret ((?pc, st), \<lparr>pool = w, env = e\<lparr>outside := x\<rparr>, history = []\<rparr>, started_servers P getenv cfg))" by blast
  then have "started P rf yaml getenv flag cfg ?pc
      \<lparr>sys = \<lparr>pool = w, env = e\<lparr>outside := x\<rparr>, history = []\<rparr>, probe_streaks = st\<rparr>"
    using load len uid by (auto simp: started_def)
  ultimately show ?thesis by fastforce
qed

section \<open>Properties\<close>

text \<open>
  C2. The state is well formed at any time.  From any configuration that loads, after any requests
  to both servers and any ticks of the prober, with anything going on while they wait for the
  network: identifiers are distinct, every backend has an http or https URL with a host and a
  weight from one to a million, the streaks stay between the thresholds, and the sum that the
  weighted selectors draw from neither wraps nor is zero when a backend is healthy.
\<close>

theorem reachable_well_formed:
  assumes "started P rf yaml getenv flag cfg pc s" and "network_ok P"
    and "system_steps P (RegistryToken getenv) cfg pc s t"
  shows "distinct (map InstanceID (abs_reg (pool (sys t)))) \<and>
    (\<forall>b\<in>set (abs_reg (pool (sys t))). 1 \<le> unat (Weight b) \<and> unat (Weight b) \<le> 1000000 \<and>
       (\<exists>u. URL b = Some u \<and> url_Scheme u \<in> {''http'', ''https''} \<and> url_Host u \<noteq> [])) \<and>
    (\<forall>i. - UnhealthyThreshold pc \<le> streak_of (probe_streaks t) i \<and> streak_of (probe_streaks t) i \<le> HealthyThreshold pc) \<and>
    unat (total_weight (cells (pool (sys t))) (ListHealthyBackends (pool (sys t)))) =
      sum_list (map (\<lambda>p. unat (Weight (cells (pool (sys t)) p))) (ListHealthyBackends (pool (sys t)))) \<and>
    (ListHealthyBackends (pool (sys t)) \<noteq> [] \<longrightarrow> total_weight (cells (pool (sys t))) (ListHealthyBackends (pool (sys t))) \<noteq> 0)"
proof -
  note ok = started_ok [OF assms(1)]
  from system_steps_advance [OF assms(3) ok(1) assms(2) ok(2)]
  have t: "pool_wf (pool (sys t))" "streaks_ok pc (probe_streaks t)" by (simp_all add: running_ok_def)
  from sel_ok_total(2) [OF pool_wfD(2) [OF t(1)]] sel_ok_total_pos [OF pool_wfD(2) [OF t(1)]] t show ?thesis
    by (auto simp: pool_wf_def pool_ok_def reg_ok_def weights_ok_def weight_ok_def streaks_ok_def in_range_def
        weight_of_def [abs_def])
qed

lemma sample_network_ok: "network_ok sample_platform"
  by (simp add: network_ok_def sample_platform_def sample_network_def)

text \<open>The sample platform starts from a configuration with one backend and serves a request.\<close>

definition sample_start :: "probe_config \<Rightarrow> collector list running \<Rightarrow> bool" where
  "sample_start pc s \<longleftrightarrow> started sample_platform (\<lambda>_. Inr []) (\<lambda>_. Inr sample_cfg) (\<lambda>_. []) None sample_cfg pc s"

lemma sample_started: "\<exists>pc s. sample_start pc s"
proof -
  have laws: "registry_laws (new_registry sample_platform) (must_register sample_platform) (\<lambda>x. x)"
    using list_registry_laws by (simp add: sample_platform_def)
  have "Validate (url_parse sample_platform) sample_cfg = []"
    by (simp add: Validate_valid config_valid_def sample_config_def duration_valid_def server_valid_def
        default_server_def portOr_def)
  then have "loadConfig (\<lambda>_. Inr []) (\<lambda>_. Inr sample_cfg) (url_parse sample_platform) None =
      Inr sample_cfg"
    by (simp add: loadConfig_def Load_def)
  moreover have "length (cfg_Backends sample_cfg) < 2 ^ 32" by (simp add: sample_config_def)
  ultimately show ?thesis using started_exists [OF _ _ nat_ids_inj laws] unfolding sample_start_def by blast
qed

lemma reachable_well_formed_witness:
  "\<exists>pc s. sample_start pc s \<and> distinct (map InstanceID (abs_reg (pool (fst
     (balancer_front sample_platform sample_cfg (path_request ''PUT'' ''/'' []) (sys s))))))"
proof -
  from sample_started obtain pc s where s: "sample_start pc s" by blast
  have "system_steps sample_platform (RegistryToken (\<lambda>_. [])) sample_cfg pc s
      (s\<lparr>sys := fst (balancer_front sample_platform sample_cfg (path_request ''PUT'' ''/'' []) (sys s))\<rparr>)"
    by (rule r_into_rtranclp, rule front_request)
  from reachable_well_formed [OF s [unfolded sample_start_def] sample_network_ok this] s show ?thesis
    by auto
qed

text \<open>
  C3. No request and no probe round crashes.  In any reachable state, a request to the management
  API returns a response; a request to the balancer ends in a response, in silence because the
  client has gone, or in the abort that \<open>ReverseProxy\<close> raises when a response breaks off, whatever
  the selectors' counter and draws and whatever happens to the pool during its attempts; and a
  probe round returns.
\<close>

theorem reachable_never_crashes:
  assumes "started P rf yaml getenv flag cfg pc s" and "network_ok P"
    and "system_steps P (RegistryToken getenv) cfg pc s t"
  shows "(fresh_uuid P (sys t) \<and> has_room (pool (sys t)) \<and> Body r \<noteq> None \<longrightarrow>
      (\<exists>ops. snd (snd (registry_api P (RegistryToken getenv) cfg r (sys t))) = Ret ops)) \<and>
    (\<forall>p. snd (snd (balancer_front P cfg r (sys t))) = Panic p \<longrightarrow> p = AbortHandler) \<and>
    (pool_steps (grow P) (pool (sys t)) (meanwhile (pool (sys t))) \<longrightarrow>
      (\<exists>w st. probeRound abs_reg SetHealthy pc http meanwhile False (pool (sys t), probe_streaks t) = Ret (w, st)))"
proof -
  note ok = started_ok [OF assms(1)]
  from system_steps_advance [OF assms(3) ok(1) assms(2) ok(2)]
  have wf: "pool_wf (pool (sys t))" and st: "streaks_ok pc (probe_streaks t)" by (simp_all add: running_ok_def)
  have "\<exists>ops. snd (snd (registry_api P (RegistryToken getenv) cfg r (sys t))) = Ret ops"
    if "fresh_uuid P (sys t)" "has_room (pool (sys t))" "Body r \<noteq> None"
    using registry_api_effect [OF wf that, of "RegistryToken getenv" cfg]
    by (cases "snd (snd (registry_api P (RegistryToken getenv) cfg r (sys t)))") (auto simp: request_effect_def)
  moreover have "\<exists>w st'. probeRound abs_reg SetHealthy pc http meanwhile False (pool (sys t), probe_streaks t) = Ret (w, st')"
    if "pool_steps (grow P) (pool (sys t)) (meanwhile (pool (sys t)))"
    by (rule probeRound_steps [where meanwhile = meanwhile and http = http and initial = False, OF wf that ok(2) st]) blast
  ultimately show ?thesis using balancer_front_effect [OF wf assms(2), of cfg r] by (auto simp: request_effect_def)
qed


lemma reachable_never_crashes_witness:
  "\<exists>pc s. sample_start pc s \<and>
     snd (snd (balancer_front sample_platform sample_cfg (path_request ''PUT'' ''/'' []) (sys s))) \<in> insert (Panic AbortHandler) (range Ret)"
proof -
  from sample_started obtain pc s where s: "sample_start pc s" by blast
  note safe = reachable_never_crashes [OF s [unfolded sample_start_def] sample_network_ok rtranclp.rtrancl_refl]
  then have "snd (snd (balancer_front sample_platform sample_cfg (path_request ''PUT'' ''/'' []) (sys s)))
      \<in> insert (Panic AbortHandler) (range Ret)"
    by (cases "snd (snd (balancer_front sample_platform sample_cfg (path_request ''PUT'' ''/'' []) (sys s)))") auto
  with s show ?thesis by blast
qed

text \<open>
  C4. A backend that was taken out gets nothing more.  After an authorized DELETE of a registered
  backend the client is told that it worked, the backend is no longer listed, and whatever happens
  from then on, late health reports and registrations included, no request that starts afterwards
  is tried on it.
\<close>

theorem deregistered_never_tried:
  assumes "started P rf yaml getenv flag cfg pc s" and "network_ok P"
    and "system_steps P (RegistryToken getenv) cfg pc s t" and "p \<in> set (listed (pool (sys t)))"
    and "authorized (RegistryToken getenv) r" and "canonical r" and "Method r = ''DELETE''"
    and "api_target r = Some (InstanceID (cells (pool (sys t)) p))"
    and "registry_api P (RegistryToken getenv) cfg r (sys t) = (s1, pattern, res)"
    and "system_steps P (RegistryToken getenv) cfg pc (t\<lparr>sys := s1\<rparr>) t'"
  shows "(\<exists>ops. res = Ret ops \<and> net_status ops = 200) \<and> p \<notin> set (listed (pool s1)) \<and>
    (\<exists>new. history (sys t') = history (sys t) @ new \<and> (\<forall>a\<in>set new. att_target a \<noteq> p))"
proof -
  note ok = started_ok [OF assms(1)]
  from system_steps_advance [OF assms(3) ok(1) assms(2) ok(2)]
  have wf: "pool_wf (pool (sys t))" and st: "streaks_ok pc (probe_streaks t)" by (simp_all add: running_ok_def)
  let ?i = "InstanceID (cells (pool (sys t)) p)" and ?w = "pool (sys t)"
  obtain w1 res1 where rem: "RemoveInstanceByID (grow P) ?i ?w = Ret (w1, res1)"
    using reg.remove_law [OF pool_wfD(1) [OF wf]] by blast
  from pool_wfD(5) [OF wf] rem have gone: "res1" "p \<notin> set (listed w1)" "brk w1 = brk ?w"
    by (cases rule: RemoveInstanceByID_cases; use assms(4) in \<open>auto simp: abs_reg_def\<close>)+
  have "observed (s1, pattern, res) = ((w1, history (sys t)), ''DELETE /backends/{instanceID}'',
      Ret (ops_of \<lparr>Status = 200, RespHeader = Map.empty, RespBody = Raw []\<rparr>))"
    using api_delete [OF assms(5-8), where P = P and s = "sys t" and w' = w1 and cfg = cfg] rem gone(1) assms(9) by simp
  then have s1: "pool s1 = w1" "history s1 = history (sys t)"
    "res = Ret (ops_of \<lparr>Status = 200, RespHeader = Map.empty, RespBody = Raw []\<rparr>)"
    by (simp_all add: observed_def)
  have "pool_wf w1" using pool_step_wf [OF pool_remove [OF rem] wf] by blast
  then have ok1: "running_ok pc (t\<lparr>sys := s1\<rparr>)" using st s1 by (simp add: running_ok_def)
  from system_steps_advance [OF assms(10) ok1 assms(2) ok(2)] s1 obtain new where
    new: "history (sys t') = history (sys t) @ new" "\<forall>a\<in>set new. tried_healthy (grow P) w1 a"
    by (auto simp: advances_def)
  have "att_target a \<noteq> p" if "a \<in> set new" for a
  proof -
    from new(2) that obtain w' where w': "pool_steps (grow P) w1 w'" "att_target a \<in> set (listed w')"
      using healthy_subset by (fastforce simp: tried_healthy_def)
    have "p < brk w1" using mem_ok_listed(2) [OF pool_wfD(5) [OF wf] assms(4)] gone(3) by simp
    with pool_steps_wf [OF w'(1) \<open>pool_wf w1\<close>] w'(2) gone(2) show ?thesis by auto
  qed
  with s1 gone(2) new(1) show ?thesis by (simp add: ops_of_def informational_def)
qed

text \<open>A start with one backend, of identifier \<open>x\<close>.\<close>

definition one_cfg :: config where
  "one_cfg = sample_config [svc_settings] [] ''random''"

definition one_platform :: "collector list platform" where
  "one_platform = sample_platform\<lparr>url_parse := sample_url\<rparr>"

lemma one_platform_ok: "network_ok one_platform"
  by (simp add: network_ok_def one_platform_def sample_platform_def sample_network_def)

lemma one_platform_laws: "registry_laws (new_registry one_platform) (must_register one_platform) (\<lambda>x. x)"
  using list_registry_laws by (simp add: one_platform_def sample_platform_def)

lemma one_cfg_loads: "loadConfig (\<lambda>_. Inr []) (\<lambda>_. Inr one_cfg) (url_parse one_platform) None = Inr one_cfg"
proof -
  have "Validate sample_url one_cfg = []"
    by (simp add: one_cfg_def Validate_valid config_valid_def sample_config_def backend_valid_def svc_settings_def sample_url_def
        mk_url_def zero_url_def duration_valid_def server_valid_def default_server_def portOr_def)
  then show ?thesis by (simp add: loadConfig_def Load_def one_platform_def)
qed

lemma one_started:
  "\<exists>pc s. started one_platform (\<lambda>_. Inr []) (\<lambda>_. Inr one_cfg) (\<lambda>_. []) None one_cfg pc s \<and>
    map InstanceID (abs_reg (pool (sys s))) = [''x'']"
proof -
  have "length (cfg_Backends one_cfg) < 2 ^ 32" "cfg_Backends one_cfg = [svc_settings]"
    by (simp_all add: one_cfg_def sample_config_def)
  moreover have "inj (\<lambda>n. replicate (Suc n) CHR ''x'')" by (rule injI) (metis length_replicate nat.inject)
  ultimately show ?thesis
    using started_exists [OF one_cfg_loads _ _ one_platform_laws, of "\<lambda>n. replicate (Suc n) CHR ''x''" "\<lambda>_. []"]
    by force
qed

lemma delete_x:
  "canonical (path_request ''DELETE'' ''/backends/x'' [])"
  "api_target (path_request ''DELETE'' ''/backends/x'' []) = Some ''x''"
proof -
  have "EscapedPath (ReqURL (path_request ''DELETE'' ''/backends/x'' [])) = ''/backends/x''"
    unfolding path_request_def by simp code_simp
  moreover have "cleanPath ''/backends/x'' = ''/backends/x''" "path_segments ''/backends/x'' = [''backends'', ''x'']" by code_simp+
  ultimately show "canonical (path_request ''DELETE'' ''/backends/x'' [])"
    "api_target (path_request ''DELETE'' ''/backends/x'' []) = Some ''x''"
    by (simp_all add: canonical_def api_target_def segments_of_def)
qed

lemma deregistered_never_tried_witness:
  "\<exists>pc s p. started one_platform (\<lambda>_. Inr []) (\<lambda>_. Inr one_cfg) (\<lambda>_. []) None one_cfg pc s \<and>
    p \<in> set (listed (pool (sys s))) \<and>
    p \<notin> set (listed (pool (fst (registry_api one_platform [] one_cfg (path_request ''DELETE'' ''/backends/x'' []) (sys s)))))"
proof -
  let ?r = "path_request ''DELETE'' ''/backends/x'' []"
  from one_started obtain pc s where s: "started one_platform (\<lambda>_. Inr []) (\<lambda>_. Inr one_cfg) (\<lambda>_. []) None one_cfg pc s"
    and ids: "map InstanceID (abs_reg (pool (sys s))) = [''x'']" by (elim exE conjE)
  then obtain p where p: "p \<in> set (listed (pool (sys s)))" "InstanceID (cells (pool (sys s)) p) = ''x''"
    by (auto simp: abs_reg_def)
  have token: "RegistryToken (\<lambda>_. []) = []" by (simp add: RegistryToken_def)
  obtain s1 pattern res where api: "registry_api one_platform (RegistryToken (\<lambda>_. [])) one_cfg ?r (sys s) = (s1, pattern, res)"
    by (metis surj_pair)
  have "authorized (RegistryToken (\<lambda>_. [])) ?r" "Method ?r = ''DELETE''"
    "api_target ?r = Some (InstanceID (cells (pool (sys s)) p))"
    using delete_x(2) p(2) by (simp_all add: authorized_def token)
  from deregistered_never_tried [OF s one_platform_ok rtranclp.rtrancl_refl p(1) this(1) delete_x(1) this(2,3) api
      rtranclp.rtrancl_refl]
  have "p \<notin> set (listed (pool s1))" by blast
  with s p(1) api show ?thesis unfolding token by force
qed

section \<open>From a registration to traffic\<close>

lemma hysteresis_all_up: "1 \<le> H \<Longrightarrow> 1 \<le> U \<Longrightarrow> hysteresis H U False (replicate n True) = (H \<le> n)"
proof (induction n)
  case (Suc n)
  have "ups (replicate (Suc n) True) = Suc n" "downs (replicate (Suc n) True) = 0" by (simp_all add: ups_def downs_def)
  with Suc show ?case by (simp add: hysteresis_Cons ups_def downs_def)
qed simp

text \<open>
  C9. A registered backend starts to get traffic.  A registration that is valid and new is answered
  201 with the given identifier; the backend is not routed to until it has answered
  \<open>HealthyThreshold\<close> rounds of probes well, whatever the other backends do and whatever else
  happens to the pool during the rounds, and from then on it is, and \<open>/readyz\<close> answers 200.
\<close>

theorem registered_becomes_routable:
  assumes "pool_ok w" and "uid \<notin> InstanceID ` set (abs_reg w)" and "Body r = Some body"
    and "parseRegisterBackendReq jd up body = Inr (u, wt)"
    and "Some (url_String u) \<notin> (\<lambda>b. map_option url_String (URL b)) ` set (abs_reg w)"
    and "thresholds_ok cfg" and "streaks_ok cfg st" and "st uid = None"
    and "list_all2 (tick_ok reg_ok abs_reg cfg uid u) ticks (replicate n True)"
  shows "\<exists>w1 resp w2 st2. register jd up errtext g uid r w = Ret (w1, resp) \<and>
    Status resp = 201 \<and> RespBody resp = Json (JObject [(''instanceID'', JString uid)]) \<and>
    Run abs_reg SetHealthy cfg ticks (w1, st) = Ret (w2, st2) \<and>
    listed_as (abs_reg w2) uid u (nat (HealthyThreshold cfg) \<le> n) \<and>
    (nat (HealthyThreshold cfg) \<le> n \<longrightarrow> Status (readyz w2) = 200)"
proof -
  from assms(1) have ok: "reg_ok w" by (simp add: pool_ok_def)
  from ok assms(2,3) obtain w1 where w1: "register jd up errtext g uid r w =
      Ret (w1, json_response 201 (JObject [(''instanceID'', JString uid)]))" "reg_ok w1"
    "abs_reg w1 = abs_reg w @ [NewBackend uid (Some u) wt]"
    using assms(4,5) by (cases rule: register_cases [where json_decode = jd and url_parse = up
          and errtext = errtext and grow = g]) (auto simp: image_iff)
  then have l: "listed_as (abs_reg w1) uid u False" by (simp add: listed_as_def)
  have "snd (fold (track_with cfg False) (replicate n True) (streak_of st uid, False)) = (nat (HealthyThreshold cfg) \<le> n)"
    using track_hysteresis [of "HealthyThreshold cfg" "UnhealthyThreshold cfg" "replicate n True" False] assms(6,8)
    by (simp add: thresholds_ok_def streak_of_def hysteresis_all_up)
  with reg.run_of_backend [OF assms(9) w1(2) assms(6,7) l] obtain w2 st2 where
    run: "Run abs_reg SetHealthy cfg ticks (w1, st) = Ret (w2, st2)" "reg_ok w2"
      "listed_as (abs_reg w2) uid u (nat (HealthyThreshold cfg) \<le> n)" by auto
  have "Status (readyz w2) = 200" if "nat (HealthyThreshold cfg) \<le> n"
  proof -
    from run(3) that have "filter Healthy (abs_reg w2) \<noteq> []" by (auto simp: listed_as_def filter_empty_conv Healthy_def)
    then have "ListHealthyBackends w2 \<noteq> []" by (metis list.simps(8) map_cells_healthy)
    then show ?thesis by (simp add: readyz_def writeJSON_def)
  qed
  with w1 run show ?thesis by simp
qed

lemma registered_becomes_routable_witness:
  "\<exists>w1 resp w2 st2. register decode_sample url_sample (\<lambda>_. []) (\<lambda>n. n) ''i'' (api_request ''POST'' []) (boot []) = Ret (w1, resp) \<and>
    Run abs_reg SetHealthy sample_probe_config (map (\<lambda>status. (\<lambda>_ _. status, \<lambda>w. w)) [Some 200, Some 204])
      (w1, Map.empty) = Ret (w2, st2) \<and> Status (readyz w2) = 200"
proof -
  let ?ticks = "map (\<lambda>status. (\<lambda>_ _. status, \<lambda>w. w)) [Some 200, Some 204]" and ?u = "mk_url ''http'' ''svc:80'' []"
  have "list_all2 (tick_ok reg_ok abs_reg sample_probe_config ''i'' ?u) ?ticks (replicate 2 True)"
    by (simp add: tick_ok_def good_def numeral_2_eq_2)
  moreover have "Body (api_request ''POST'' []) = Some (Reader [] None)" by (simp add: api_request_def)
  moreover have "nat (HealthyThreshold sample_probe_config) \<le> 2" by (simp add: sample_thresholds)
  ultimately show ?thesis
    using registered_becomes_routable [OF empty_pool(1) _ _ parse_sample, where uid = "''i''" and r = "api_request ''POST'' []"
        and body = "Reader [] None" and cfg = sample_probe_config and st = Map.empty and ticks = ?ticks and n = 2
        and errtext = "\<lambda>_. []" and g = "\<lambda>n. n"]
    by (fastforce simp: empty_pool(2) sample_thresholds streaks_ok_empty)
qed

end
