(* ===== verification/Lifecycle.thy ===== *)
theory Lifecycle
  imports Prelude
begin

text \<open>
  The life of the process after startup: \<open>startServer\<close> (\<open>internal/bootstrap\<close>, server.go) runs every
  server with two goroutines, one that listens and one that waits for the context and then shuts
  the server down, and \<open>Run\<close> (runner.go) waits for all of them.  The steps of the goroutines, the
  arrival and the end of requests, the signal and the deadline of a drain interleave freely.
  The server of \<open>net/http\<close> is modelled as documented: \<open>Shutdown\<close> stops accepting at once, which
  makes \<open>ListenAndServe\<close> return \<open>ErrServerClosed\<close>, and returns when no request is in flight or its
  context ends.
\<close>

section \<open>State\<close>

text \<open>The goroutine that listens.\<close>

datatype listen_pc = NotListening | Accepting | ListenDone

text \<open>The goroutine that shuts down; \<open>ShutDone\<close> says whether all requests had ended.\<close>

datatype shut_pc = AwaitCancel | Draining | ShutDone bool

record server_life =
  listener :: listen_pc
  shutter :: shut_pc
  inflight :: nat

datatype exit = Finished | Fatal

record process =
  cancelled :: bool \<comment> \<open>the context of \<open>signal.NotifyContext\<close>\<close>
  lives :: "server_life list"
  ended :: "exit option"

definition new_server :: server_life where
  "new_server = \<lparr>listener = NotListening, shutter = AwaitCancel, inflight = 0\<rparr>"

definition start_process :: "nat \<Rightarrow> process" where
  "start_process n = \<lparr>cancelled = False, lives = replicate n new_server, ended = None\<rparr>"

definition upd :: "nat \<Rightarrow> (server_life \<Rightarrow> server_life) \<Rightarrow> process \<Rightarrow> process" where
  "upd k f p = p\<lparr>lives := (lives p)[k := f (lives p ! k)]\<rparr>"

text \<open>Both goroutines of a server have returned, so the wait group no longer counts them.\<close>

fun server_done :: "server_life \<Rightarrow> bool" where
  "server_done sv \<longleftrightarrow> listener sv = ListenDone \<and> (case shutter sv of ShutDone d \<Rightarrow> True | _ \<Rightarrow> False)"

section \<open>Steps\<close>

text \<open>
  Steps of the program itself, and steps of its surroundings.  A listener that cannot be opened,
  or that breaks while the server is not shutting down, ends the process through \<open>log.Fatalf\<close>.
\<close>

inductive own_step :: "process \<Rightarrow> process \<Rightarrow> bool" where
  listen: "ended p = None \<Longrightarrow> k < length (lives p) \<Longrightarrow> listener (lives p ! k) = NotListening \<Longrightarrow>
    shutter (lives p ! k) = AwaitCancel \<Longrightarrow> own_step p (upd k (\<lambda>sv. sv\<lparr>listener := Accepting\<rparr>) p)"
| begin_shutdown: "ended p = None \<Longrightarrow> cancelled p \<Longrightarrow> k < length (lives p) \<Longrightarrow> shutter (lives p ! k) = AwaitCancel \<Longrightarrow>
    own_step p (upd k (\<lambda>sv. sv\<lparr>shutter := Draining\<rparr>) p)"
| closed: "ended p = None \<Longrightarrow> k < length (lives p) \<Longrightarrow> listener (lives p ! k) \<noteq> ListenDone \<Longrightarrow>
    shutter (lives p ! k) \<noteq> AwaitCancel \<Longrightarrow> own_step p (upd k (\<lambda>sv. sv\<lparr>listener := ListenDone\<rparr>) p)"
| drained: "ended p = None \<Longrightarrow> k < length (lives p) \<Longrightarrow> shutter (lives p ! k) = Draining \<Longrightarrow>
    inflight (lives p ! k) = 0 \<Longrightarrow> own_step p (upd k (\<lambda>sv. sv\<lparr>shutter := ShutDone True\<rparr>) p)"
| deadline: "ended p = None \<Longrightarrow> k < length (lives p) \<Longrightarrow> shutter (lives p ! k) = Draining \<Longrightarrow>
    own_step p (upd k (\<lambda>sv. sv\<lparr>shutter := ShutDone False\<rparr>) p)"
| wait_returns: "ended p = None \<Longrightarrow> \<forall>sv\<in>set (lives p). server_done sv \<Longrightarrow> own_step p (p\<lparr>ended := Some Finished\<rparr>)"

inductive env_step :: "process \<Rightarrow> process \<Rightarrow> bool" where
  signal: "ended p = None \<Longrightarrow> env_step p (p\<lparr>cancelled := True\<rparr>)"
| request: "ended p = None \<Longrightarrow> k < length (lives p) \<Longrightarrow> listener (lives p ! k) = Accepting \<Longrightarrow>
    shutter (lives p ! k) = AwaitCancel \<Longrightarrow> env_step p (upd k (\<lambda>sv. sv\<lparr>inflight := Suc (inflight sv)\<rparr>) p)"
| request_ends: "ended p = None \<Longrightarrow> k < length (lives p) \<Longrightarrow> 0 < inflight (lives p ! k) \<Longrightarrow>
    env_step p (upd k (\<lambda>sv. sv\<lparr>inflight := inflight sv - 1\<rparr>) p)"
| listen_fails: "ended p = None \<Longrightarrow> k < length (lives p) \<Longrightarrow>
    listener (lives p ! k) = NotListening \<or> listener (lives p ! k) = Accepting \<and> shutter (lives p ! k) = AwaitCancel \<Longrightarrow>
    env_step p (p\<lparr>ended := Some Fatal\<rparr>)"

inductive process_reach :: "nat \<Rightarrow> process \<Rightarrow> bool" for n where
  start: "process_reach n (start_process n)"
| own: "process_reach n p \<Longrightarrow> own_step p p' \<Longrightarrow> process_reach n p'"
| env: "process_reach n p \<Longrightarrow> env_step p p' \<Longrightarrow> process_reach n p'"

inductive_cases own_stepE: "own_step p p'"
inductive_cases env_stepE: "env_step p p'"

text \<open>Nothing happens after the end of the process.\<close>

lemma ended_stays: "ended p \<noteq> None \<Longrightarrow> \<not> own_step p p' \<and> \<not> env_step p p'"
  by (auto elim: own_stepE env_stepE)

section \<open>Invariant\<close>

definition life_ok :: "bool \<Rightarrow> server_life \<Rightarrow> bool" where
  "life_ok c sv \<longleftrightarrow> (shutter sv \<noteq> AwaitCancel \<longrightarrow> c) \<and> (shutter sv = ShutDone True \<longrightarrow> inflight sv = 0) \<and>
     (listener sv = ListenDone \<longrightarrow> shutter sv \<noteq> AwaitCancel) \<and> (listener sv = NotListening \<longrightarrow> inflight sv = 0)"

definition process_ok :: "nat \<Rightarrow> process \<Rightarrow> bool" where
  "process_ok n p \<longleftrightarrow> length (lives p) = n \<and> (\<forall>k<n. life_ok (cancelled p) (lives p ! k)) \<and>
     (ended p = Some Finished \<longrightarrow> (\<forall>k<n. server_done (lives p ! k)))"

lemma upd_simps [simp]:
  "length (lives (upd k f p)) = length (lives p)" "cancelled (upd k f p) = cancelled p" "ended (upd k f p) = ended p"
  "k < length (lives p) \<Longrightarrow> lives (upd k f p) ! j = (if j = k then f (lives p ! k) else lives p ! j)"
  by (simp_all add: upd_def nth_list_update)

lemma upd_ok:
  assumes "process_ok n p" and "ended p = None" and "k < length (lives p)" and "life_ok (cancelled p) (f (lives p ! k))"
  shows "process_ok n (upd k f p)"
  using assms by (simp add: process_ok_def)

lemma ok_life: "process_ok n p \<Longrightarrow> k < length (lives p) \<Longrightarrow> life_ok (cancelled p) (lives p ! k)"
  by (simp add: process_ok_def)

lemma own_step_ok:
  assumes "own_step p p'" and ok: "process_ok n p"
  shows "process_ok n p'"
  using assms(1)
proof (cases rule: own_step.cases)
  case (listen k)
  with ok_life [OF ok listen(3)] show ?thesis by (auto intro!: upd_ok [OF ok] simp: life_ok_def)
next
  case (begin_shutdown k)
  with ok_life [OF ok begin_shutdown(4)] show ?thesis by (auto intro!: upd_ok [OF ok] simp: life_ok_def)
next
  case (closed k)
  with ok_life [OF ok closed(3)] show ?thesis by (auto intro!: upd_ok [OF ok] simp: life_ok_def)
next
  case (drained k)
  with ok_life [OF ok drained(3)] show ?thesis by (auto intro!: upd_ok [OF ok] simp: life_ok_def)
next
  case (deadline k)
  with ok_life [OF ok deadline(3)] show ?thesis by (auto intro!: upd_ok [OF ok] simp: life_ok_def)
next
  case wait_returns
  with ok show ?thesis by (simp add: process_ok_def)
qed

lemma env_step_ok:
  assumes "env_step p p'" and ok: "process_ok n p"
  shows "process_ok n p'"
  using assms(1)
proof (cases rule: env_step.cases)
  case signal
  with ok show ?thesis by (simp add: process_ok_def life_ok_def)
next
  case (request k)
  with ok_life [OF ok request(3)] show ?thesis by (auto intro!: upd_ok [OF ok] simp: life_ok_def)
next
  case (request_ends k)
  with ok_life [OF ok request_ends(3)] show ?thesis by (auto intro!: upd_ok [OF ok] simp: life_ok_def)
next
  case (listen_fails k)
  with ok show ?thesis by (simp add: process_ok_def)
qed

lemma process_reach_ok: "process_reach n p \<Longrightarrow> process_ok n p"
proof (induction rule: process_reach.induct)
  case start
  then show ?case by (simp add: process_ok_def start_process_def life_ok_def new_server_def)
next
  case (own p p')
  then show ?case by (blast intro: own_step_ok)
next
  case (env p p')
  then show ?case by (blast intro: env_step_ok)
qed

section \<open>Shutdown comes to an end\<close>

fun listen_left :: "listen_pc \<Rightarrow> nat" where
  "listen_left NotListening = 2" | "listen_left Accepting = 1" | "listen_left ListenDone = 0"

fun shut_left :: "shut_pc \<Rightarrow> nat" where
  "shut_left AwaitCancel = 2" | "shut_left Draining = 1" | "shut_left (ShutDone d) = 0"

definition life_left :: "server_life \<Rightarrow> nat" where
  "life_left sv = listen_left (listener sv) + shut_left (shutter sv)"

definition work_left :: "process \<Rightarrow> nat" where
  "work_left p = sum_list (map life_left (lives p)) + (if ended p = None then 1 else 0)"

lemma work_left_upd:
  assumes "k < length (lives p)"
  shows "work_left (upd k f p) + life_left (lives p ! k) = work_left p + life_left (f (lives p ! k))"
proof -
  have "life_left (lives p ! k) \<le> sum_list (map life_left (lives p))"
    using elem_le_sum_list [of k "map life_left (lives p)"] assms by simp
  then have "sum_list (map life_left ((lives p)[k := x])) + life_left (lives p ! k) =
      sum_list (map life_left (lives p)) + life_left x" for x
    using assms by (simp add: map_update sum_list_update)
  then show ?thesis by (simp add: work_left_def upd_def)
qed

lemma own_step_decreases: "own_step p p' \<Longrightarrow> work_left p' < work_left p"
proof (induction rule: own_step.induct)
  case (wait_returns p)
  then show ?case by (simp add: work_left_def)
next
  case (listen p k)
  with work_left_upd [OF listen(2), of "\<lambda>sv. sv\<lparr>listener := Accepting\<rparr>"] show ?case by (simp add: life_left_def)
next
  case (begin_shutdown p k)
  with work_left_upd [OF begin_shutdown(3), of "\<lambda>sv. sv\<lparr>shutter := Draining\<rparr>"] show ?case by (simp add: life_left_def)
next
  case (closed p k)
  have "0 < listen_left (listener (lives p ! k))" using closed(3) by (cases "listener (lives p ! k)") simp_all
  with closed work_left_upd [OF closed(2), of "\<lambda>sv. sv\<lparr>listener := ListenDone\<rparr>"] show ?case
    by (simp add: life_left_def)
next
  case (drained p k)
  with work_left_upd [OF drained(2), of "\<lambda>sv. sv\<lparr>shutter := ShutDone True\<rparr>"] show ?case by (simp add: life_left_def)
next
  case (deadline p k)
  with work_left_upd [OF deadline(2), of "\<lambda>sv. sv\<lparr>shutter := ShutDone False\<rparr>"] show ?case by (simp add: life_left_def)
qed

lemma env_step_keeps_work: "env_step p p' \<Longrightarrow> work_left p' \<le> work_left p"
proof (induction rule: env_step.induct)
  case (signal p)
  then show ?case by (simp add: work_left_def)
next
  case (request p k)
  with work_left_upd [OF request(2), of "\<lambda>sv. sv\<lparr>inflight := Suc (inflight sv)\<rparr>"] show ?case by (simp add: life_left_def)
next
  case (request_ends p k)
  with work_left_upd [OF request_ends(2), of "\<lambda>sv. sv\<lparr>inflight := inflight sv - 1\<rparr>"] show ?case by (simp add: life_left_def)
next
  case (listen_fails p k)
  then show ?case by (simp add: work_left_def)
qed

lemma own_step_enabled:
  assumes "cancelled p" and "ended p = None"
  shows "\<exists>p'. own_step p p'"
proof (cases "\<forall>sv\<in>set (lives p). server_done sv")
  case True
  from own_step.wait_returns [OF assms(2) this] show ?thesis by (rule exI)
next
  case False
  then obtain k where k: "k < length (lives p)" "\<not> server_done (lives p ! k)" by (auto simp: in_set_conv_nth)
  show ?thesis
  proof (cases "shutter (lives p ! k)")
    case AwaitCancel
    from own_step.begin_shutdown [OF assms(2,1) k(1) this] show ?thesis by (rule exI)
  next
    case Draining
    from own_step.deadline [OF assms(2) k(1) this] show ?thesis by (rule exI)
  next
    case (ShutDone d)
    with k(2) have "listener (lives p ! k) \<noteq> ListenDone" "shutter (lives p ! k) \<noteq> AwaitCancel" by auto
    from own_step.closed [OF assms(2) k(1) this] show ?thesis by (rule exI)
  qed
qed

section \<open>Properties\<close>

text \<open>
  C21. Shutdown.  If \<open>Run\<close> returns, a signal had been received, every server has stopped accepting
  and has either no request in flight or exceeded its drain deadline, so the process does not
  exit in the middle of a drain, unless a listener breaks (\<open>log.Fatalf\<close>, the end \<open>Fatal\<close>).  Once the signal is there, the program can always take a step
  until it ends, each of its steps uses up a bounded amount of work (four per server and one),
  and nothing from outside, requests ending late included, adds to it.
\<close>

theorem graceful_shutdown:
  assumes "process_reach n p"
  shows "(ended p = Some Finished \<longrightarrow> (\<forall>k<n. cancelled p \<and> listener (lives p ! k) = ListenDone \<and>
      (shutter (lives p ! k) = ShutDone True \<and> inflight (lives p ! k) = 0 \<or> shutter (lives p ! k) = ShutDone False))) \<and>
    (cancelled p \<longrightarrow> ended p = None \<longrightarrow> (\<exists>p'. own_step p p')) \<and>
    (\<forall>p'. own_step p p' \<longrightarrow> work_left p' < work_left p) \<and>
    (\<forall>p'. env_step p p' \<longrightarrow> work_left p' \<le> work_left p)"
proof (intro conjI impI allI)
  note ok = process_reach_ok [OF assms]
  fix k assume fin: "ended p = Some Finished" and k: "k < n"
  with ok have sv: "server_done (lives p ! k)" "life_ok (cancelled p) (lives p ! k)" by (simp_all add: process_ok_def)
  then show "cancelled p" "listener (lives p ! k) = ListenDone" by (auto simp: life_ok_def)
  from sv show "shutter (lives p ! k) = ShutDone True \<and> inflight (lives p ! k) = 0 \<or> shutter (lives p ! k) = ShutDone False"
    by (auto simp: life_ok_def split: shut_pc.splits)
qed (auto intro: own_step_enabled own_step_decreases env_step_keeps_work)

lemma graceful_shutdown_witness:
  "\<exists>p'. own_step ((start_process 3)\<lparr>cancelled := True\<rparr>) p'"
proof -
  have "ended (start_process 3) = None" by (simp add: start_process_def)
  from process_reach.env [OF process_reach.start env_step.signal [OF this]]
  have "process_reach 3 ((start_process 3)\<lparr>cancelled := True\<rparr>)" .
  from graceful_shutdown [OF this] show ?thesis by (simp add: start_process_def)
qed

end
