(* ===== verification/Program.thy ===== *)
theory Program
  imports System Lifecycle
begin

text \<open>
  The programs around the balancer: its entry point (\<open>cmd/balancer\<close>), which runs the startup and
  then lives with its servers until they have ended, and the script that sends it one request
  (\<open>scripts/simulate_traffic\<close>).  An exit status of 1 is that of \<open>log.Fatalf\<close> and \<open>os.Exit(1)\<close>, 2
  that of a panic.
\<close>

section \<open>The entry point\<close>

datatype 'x launched =
    Exited nat
  | Serving probe_config "'x running" "'x system http_server list" process

text \<open>\<open>main\<close> calls \<open>Run\<close>; after a startup, the process has one listener per server to wait for.\<close>

definition balancer_main ::
    "'x platform \<Rightarrow> (string \<Rightarrow> string + string) \<Rightarrow> (string \<Rightarrow> string + config) \<Rightarrow> (string \<Rightarrow> string) \<Rightarrow> (nat \<Rightarrow> string)
      \<Rightarrow> (nat \<Rightarrow> string \<Rightarrow> nat option) \<Rightarrow> 'x balancer_env \<Rightarrow> string option \<Rightarrow> 'x launched" where
  "balancer_main P read_file yaml getenv uid http e flag =
     (case bootstrap_Run P read_file yaml getenv uid http e flag of
        Inl err \<Rightarrow> Exited 1
      | Inr (Panic p) \<Rightarrow> Exited 2
      | Inr (Ret ((pc, st), s, servers)) \<Rightarrow>
          Serving pc \<lparr>sys = s, probe_streaks = st\<rparr> servers (start_process (length servers)))"

section \<open>The traffic script\<close>

text \<open>\<open>http.NewRequest\<close> without a body, for a URL that parses.\<close>

definition new_get :: "url \<Rightarrow> request" where
  "new_get u =
     \<lparr>Method = ''GET'', ReqURL = u, ReqHost = url_Host u, ReqTLS = False, RemoteAddr = [], Header = Map.empty,
      Body = None, GetBody = None, Pattern = [], PathInstanceID = []\<rparr>"

text \<open>
  \<open>main\<close> with \<open>send\<close>, the default client, which gives an error text or the body of a response; the
  result is what is printed, and the exit status.
\<close>

definition traffic_main ::
    "(string \<Rightarrow> string + url) \<Rightarrow> (request \<Rightarrow> 'w \<Rightarrow> 'w \<times> (string + reader)) \<Rightarrow> 'w \<Rightarrow> 'w \<times> string \<times> nat" where
  "traffic_main parse send w =
     (case parse ''http://localhost:8080'' of
        Inl err \<Rightarrow> (w, ''Issue when creating request: '' @ err, 1)
      | Inr u \<Rightarrow>
          (case send (new_get u) w of
             (w', Inl err) \<Rightarrow> (w', ''client: error making http request: '' @ err @ [CHR 0x0A], 1)
           | (w', Inr body) \<Rightarrow>
               (case ReadAll body of
                  Inl err \<Rightarrow> (w', ''client: could not read response body: '' @ err @ [CHR 0x0A], 1)
                | Inr answer \<Rightarrow> (w', ''client: response body: '' @ answer, 0))))"

text \<open>
  The script succeeds exactly when a whole response came back, and then prints its body: the status
  of the response does not matter, so a refusal by the balancer counts as success.
\<close>

lemma traffic_succeeds_iff:
  "snd (snd (traffic_main parse send w)) = 0 \<longleftrightarrow>
     (\<exists>u answer. parse ''http://localhost:8080'' = Inr u \<and> snd (send (new_get u) w) = Inr (Reader answer None) \<and>
        fst (snd (traffic_main parse send w)) = ''client: response body: '' @ answer)"
proof (cases "parse ''http://localhost:8080''")
  case (Inr u)
  obtain w' res where "send (new_get u) w = (w', res)" by fastforce
  moreover have "ReadAll body = Inr answer \<longleftrightarrow> body = Reader answer None" for body answer
    by (induction body rule: ReadAll.induct) auto
  ultimately show ?thesis using Inr
    by (auto simp: traffic_main_def split: sum.splits)
qed (simp add: traffic_main_def)

section \<open>Properties\<close>

text \<open>
  C17. What the program is when its servers start listening.  A configuration that does not load
  ends it with status 1.  From one that loads, with a Prometheus client that behaves as documented,
  it comes up without a panic: the pool holds the configured backends in their order, each of them
  routable exactly if its first probe was answered with a 2xx status; the selectors' invariants
  hold, nothing has been forwarded yet; three servers with different addresses are to be waited
  for; and the metrics registry holds the two standard collectors and the request counter, each once.
\<close>

theorem startup_seeds_health:
  assumes "\<And>cfg. loadConfig rf yaml (url_parse P) flag = Inr cfg \<Longrightarrow> length (cfg_Backends cfg) < 2 ^ 32"
    and "inj uid" and "registry_laws (new_registry P) (must_register P) registered"
  shows "case loadConfig rf yaml (url_parse P) flag of
      Inl err \<Rightarrow> balancer_main P rf yaml getenv uid http e flag = Exited 1
    | Inr cfg \<Rightarrow>
        (\<exists>pc s metrics api front.
          balancer_main P rf yaml getenv uid http e flag = Serving pc s [metrics, api, front] (start_process 3) \<and>
          started P rf yaml getenv flag cfg pc s \<and>
          abs_reg (pool (sys s)) = first_probed pc http (DomainBackends (url_parse P) uid cfg) \<and>
          reg_ok (pool (sys s)) \<and> sel_ok (pool (sys s)) \<and> rr_ok (pool (sys s)) \<and> history (sys s) = [] \<and>
          registered (outside (env (sys s))) = [GoCollector, ProcessCollector, request_counter] \<and>
          distinct [Addr metrics, Addr api, Addr front] \<and>
          Handler api = registry_api P (RegistryToken getenv) cfg \<and> Handler front = balancer_front P cfg)"
proof (cases "loadConfig rf yaml (url_parse P) flag")
  case (Inl err)
  then show ?thesis by (simp add: balancer_main_def bootstrap_Run_def)
next
  case (Inr cfg)
  from startup_state [OF Inr assms(2) assms(1) [OF Inr] assms(3), of getenv http e] obtain pc st s metrics api front where
    run: "bootstrap_Run P rf yaml getenv uid http e flag = Inr (Ret ((pc, st), s, [metrics, api, front]))"
    and facts: "abs_reg (pool s) = first_probed pc http (DomainBackends (url_parse P) uid cfg)"
      "reg_ok (pool s)" "sel_ok (pool s)" "rr_ok (pool s)" "history s = []"
      "registered (outside (env s)) = [GoCollector, ProcessCollector, request_counter]"
      "distinct [Addr metrics, Addr api, Addr front]"
      "Handler api = registry_api P (RegistryToken getenv) cfg" "Handler front = balancer_front P cfg"
    by (elim exE conjE)
  from run have "started P rf yaml getenv flag cfg pc \<lparr>sys = s, probe_streaks = st\<rparr>"
    using Inr assms(1,2) by (auto simp: started_def)
  with Inr run facts show ?thesis
    by (simp add: balancer_main_def numeral_3_eq_3)
qed

lemma startup_seeds_health_witness:
  "\<exists>pc s servers. balancer_main one_platform (\<lambda>_. Inr []) (\<lambda>_. Inr one_cfg) (\<lambda>_. []) (\<lambda>n. replicate n CHR ''x'')
      (\<lambda>_ _. Some 204) (env (sample_system pair_world)) None = Serving pc s servers (start_process 3) \<and>
    map healthy (abs_reg (pool (sys s))) = [True]"
proof -
  have "length (cfg_Backends cfg) < 2 ^ 32"
    if "loadConfig (\<lambda>_. Inr []) (\<lambda>_. Inr one_cfg) (url_parse one_platform) None = Inr cfg" for cfg
    using that one_cfg_loads by (simp add: one_cfg_def sample_config_def)
  then show ?thesis
    using startup_seeds_health [OF _ nat_ids_inj one_platform_laws, where rf = "\<lambda>_. Inr []" and yaml = "\<lambda>_. Inr one_cfg"
        and flag = None and getenv = "\<lambda>_. []" and http = "\<lambda>_ _. Some 204" and e = "env (sample_system pair_world)"]
      one_cfg_loads
    by (auto simp: one_platform_def one_cfg_def sample_config_def DomainBackends_def svc_settings_def sample_url_def
        first_probed_def good_def Let_def)
qed

end
