(* ===== verification/Simulation.thy ===== *)
theory Simulation
  imports Servers
begin

text \<open>
  The simulated backends the repository is tried out with (\<open>scripts/simulate_server\<close>, and the
  helpers it shares with \<open>scripts/run\<close>): the routes of one backend, the port list, the lookup
  and the killing of processes that hold a port, and the retried bind.  The commands that list
  ports, the operating system's processes and the network are parameters; the requests to one
  backend are taken one after another.
\<close>

section \<open>Fields\<close>

text \<open>\<open>strings.Fields\<close>.\<close>

function Fields :: "string \<Rightarrow> string list" where
  "Fields s =
     (case dropWhile is_space s of
        [] \<Rightarrow> []
      | c # cs \<Rightarrow> (c # takeWhile (\<lambda>x. \<not> is_space x) cs) # Fields (dropWhile (\<lambda>x. \<not> is_space x) cs))"
  by pat_completeness auto

termination Fields
proof (relation "measure length", simp)
  fix s :: string and c cs
  assume "dropWhile is_space s = c # cs"
  then have "Suc (length cs) \<le> length s" by (metis length_Cons length_dropWhile_le)
  moreover have "length (dropWhile (\<lambda>x. \<not> is_space x) cs) \<le> length cs" by (rule length_dropWhile_le)
  ultimately show "(dropWhile (\<lambda>x. \<not> is_space x) cs, s) \<in> measure length" by simp
qed

declare Fields.simps [simp del]

section \<open>Ports\<close>

fun parse_port_fields :: "string list \<Rightarrow> string + int list" where
  "parse_port_fields [] = Inr []"
| "parse_port_fields (f # fs) =
     (let field = TrimSpace f
      in if field = [] then parse_port_fields fs
         else case Atoi field of
             None \<Rightarrow> Inl field
           | Some p \<Rightarrow>
               if p < 1 \<or> p > 65535 then Inl field
               else (case parse_port_fields fs of Inl e \<Rightarrow> Inl e | Inr ps \<Rightarrow> Inr (p # ps)))"

text \<open>An error carries the field that is not a port.\<close>

definition parsePorts :: "string \<Rightarrow> string + int list" where
  "parsePorts s = parse_port_fields (split_on CHR '','' s)"

text \<open>
  \<open>portPIDs\<close>: \<open>command\<close> runs a command line and returns its output, if it succeeds.  On Windows
  the process numbers come from a map, so their order is unspecified; here it is the order of
  their last lines.
\<close>

definition ends_with :: "string \<Rightarrow> string \<Rightarrow> bool" where
  "ends_with s t \<longleftrightarrow> length t \<le> length s \<and> drop (length s - length t) s = t"

definition netstat_pid :: "string \<Rightarrow> string \<Rightarrow> int option" where
  "netstat_pid suff line =
     (let fields = Fields line
      in if length fields < 5 then None
         else if \<not> ends_with (fields ! 1) suff then None
         else Atoi (last fields))"

definition portPIDs :: "string \<Rightarrow> (string list \<Rightarrow> string option) \<Rightarrow> int \<Rightarrow> int list" where
  "portPIDs goos command port =
     (if goos = ''windows'' then
        (case command [''cmd'', ''/C'', ''netstat -ano | findstr :'' @ Itoa port] of
           None \<Rightarrow> []
         | Some out \<Rightarrow> remdups (List.map_filter (netstat_pid (CHR '':'' # Itoa port)) (split_on CHR 0x0A out)))
      else
        (case command [''lsof'', ''-ti'', ''tcp:'' @ Itoa port] of
           None \<Rightarrow> []
         | Some out \<Rightarrow> List.map_filter Atoi (Fields out)))"

text \<open>\<open>freePort\<close>: a process that is not found is skipped; a failed kill is only logged.\<close>

definition freePort ::
    "string \<Rightarrow> (string list \<Rightarrow> string option) \<Rightarrow> int \<Rightarrow> (int \<Rightarrow> 'w \<Rightarrow> bool) \<Rightarrow> (int \<Rightarrow> 'w \<Rightarrow> 'w) \<Rightarrow> int \<Rightarrow> 'w \<Rightarrow> 'w" where
  "freePort goos command self finds kill port w =
     fold (\<lambda>pid w. if pid = self then w else if \<not> finds pid w then w else kill pid w)
       (portPIDs goos command port) w"

text \<open>\<open>listenWhenFree\<close>: the outcomes of the attempts; \<open>None\<close> is the fatal end after the last.\<close>

fun listen_from :: "(nat \<Rightarrow> string + 'l) \<Rightarrow> nat \<Rightarrow> nat \<Rightarrow> 'l option" where
  "listen_from attempt i 0 = None"
| "listen_from attempt i (Suc left) =
     (case attempt i of Inr ln \<Rightarrow> Some ln | Inl e \<Rightarrow> listen_from attempt (Suc i) left)"

definition listenWhenFree :: "(nat \<Rightarrow> string + 'l) \<Rightarrow> 'l option" where
  "listenWhenFree attempt = listen_from attempt 0 50"

section \<open>One backend\<close>

type_synonym i64 = "64 word" \<comment> \<open>read with \<open>sint\<close>\<close>

record sim_server =
  instanceID :: i64
  port :: int
  visits :: int
  sim_healthy :: bool

definition bad_route :: "sim_server http_handler" where
  "bad_route r s = (s, Pattern r, Ret (ops_of (http_Error ''404 page not found'' 404)))"

definition serve_visit :: "sim_server http_handler" where
  "serve_visit r s =
     (let s1 = s\<lparr>visits := visits s + 1\<rparr>
      in (s1, Pattern r, Ret (ops_of (json_response 200 (JObject
           [(''instance_id'', JNumber (sint (instanceID s1))), (''port'', JNumber (port s1)),
            (''visits'', JNumber (visits s1))])))))"

definition sim_healthz :: "sim_server http_handler" where
  "sim_healthz r s =
     (s, Pattern r,
      Ret (if sim_healthy s then [WriteHeader 200 Map.empty, Write (Raw ''ok'')]
           else ops_of (http_Error ''unhealthy'' 503)))"

definition toggle_health :: "sim_server http_handler" where
  "toggle_health r s =
     (let now = \<not> sim_healthy s
      in (s\<lparr>sim_healthy := now\<rparr>, Pattern r,
          Ret [Write (Raw (''healthy='' @ (if now then ''true'' else ''false'') @ [CHR 0x0A]))]))"

definition sim_routes :: "sim_server http_handler" where
  "sim_routes =
     newRouter [[(''/bad_route'', bad_route), (''/'', serve_visit), (''/healthz'', sim_healthz),
       (''/toggle-health'', toggle_health)]]"

text \<open>
  \<open>server.serve\<close>: free the port, bind it, serve the routes; without a listener the process has ended.
  \<open>attempt\<close> gives the outcomes of the binding attempts in the state the killing left.
\<close>

definition sim_serve ::
    "(int \<Rightarrow> 'w \<Rightarrow> 'w) \<Rightarrow> ('w \<Rightarrow> nat \<Rightarrow> string + 'l) \<Rightarrow> sim_server \<Rightarrow> 'w \<Rightarrow> 'w \<times> ('l \<times> sim_server http_handler) option" where
  "sim_serve free attempt s w =
     (let w1 = free (port s) w
      in (w1, map_option (\<lambda>ln. (ln, sim_routes)) (listenWhenFree (attempt w1))))"

section \<open>Startup\<close>

text \<open>The ports to serve on: the list if it names any, else one port derived from the identifier.\<close>

definition sim_ports :: "i64 \<Rightarrow> string \<Rightarrow> string + int list" where
  "sim_ports ptrID portsFlag =
     (case (if portsFlag \<noteq> [] then parsePorts portsFlag else Inr []) of
        Inl e \<Rightarrow> Inl e
      | Inr ports \<Rightarrow> Inr (if ports = [] then [sint (2115 + 100 * (ptrID - 1))] else ports))"

definition sim_main :: "i64 \<Rightarrow> string \<Rightarrow> bool \<Rightarrow> string + sim_server list" where
  "sim_main ptrID portsFlag startHealthy =
     map_sum (\<lambda>e. e)
       (\<lambda>ports. map (\<lambda>(i, p). \<lparr>instanceID = ptrID + of_nat i, port = p, visits = 0, sim_healthy = startHealthy\<rparr>)
         (enumerate 0 ports))
       (sim_ports ptrID portsFlag)"

text \<open>
  \<open>main\<close> as a whole: the flags with their defaults where they are not given, the backends, and the
  end of the process.  Each backend serves in a goroutine; \<open>returns\<close> are the errors their listeners
  come back with, in order, the first of which ends the process through \<open>log.Fatal\<close>.
\<close>

definition sim_program ::
    "i64 option \<Rightarrow> string option \<Rightarrow> bool option \<Rightarrow> (nat \<times> string) list \<Rightarrow> string + sim_server list \<times> string option" where
  "sim_program id_flag ports_flag healthy_flag returns =
     (case sim_main (case id_flag of None \<Rightarrow> 1 | Some i \<Rightarrow> i) (case ports_flag of None \<Rightarrow> [] | Some ps \<Rightarrow> ps)
         (case healthy_flag of None \<Rightarrow> True | Some h \<Rightarrow> h) of
        Inl e \<Rightarrow> Inl e
      | Inr servers \<Rightarrow> Inr (servers, case returns of [] \<Rightarrow> None | (k, e) # rest \<Rightarrow> Some e))"

section \<open>Printing and parsing ports\<close>

lemma digit_char: "code_in 48 57 c \<Longrightarrow> c \<noteq> CHR ''-'' \<and> c \<noteq> CHR ''+'' \<and> c \<noteq> CHR '','' \<and> \<not> is_space c"
  by (auto simp: code_in_def is_space_def)

lemma Atoi_Itoa: "0 \<le> p \<Longrightarrow> p < 2 ^ 63 \<Longrightarrow> Atoi (Itoa p) = Some p"
  using digit_char [OF dec_digits [OF list.set_sel(1) [OF dec_nonempty]], of "nat p"] dec_nonempty [of "nat p"]
  by (simp add: Atoi_def Itoa_def decimal_dec Let_def)

lemma TrimSpace_id: "\<forall>c\<in>set s. \<not> is_space c \<Longrightarrow> TrimSpace s = s"
proof -
  assume "\<forall>c\<in>set s. \<not> is_space c"
  then have "dropWhile is_space s = s" "dropWhile is_space (rev s) = rev s"
    by (auto simp: dropWhile_eq_self_iff hd_rev)
  then show "TrimSpace s = s" by (simp add: TrimSpace_def)
qed

lemma split_on_join_with: "xs \<noteq> [] \<Longrightarrow> \<forall>x\<in>set xs. d \<notin> set x \<Longrightarrow> split_on d (join_with [d] xs) = xs"
proof (induction xs)
  case (Cons x xs)
  show ?case
  proof (cases xs)
    case Nil
    with Cons.prems show ?thesis by (simp add: join_with_def split_on_single)
  next
    case (Cons y ys)
    then have "join_with [d] (x # xs) = x @ d # join_with [d] xs" by (simp add: join_with_def)
    with Cons.prems Cons.IH \<open>xs = y # ys\<close> show ?thesis by (simp add: split_on_append split_on_single)
  qed
qed simp

lemma parse_port_fields_Itoa:
  "\<forall>p\<in>set ps. 1 \<le> p \<and> p \<le> 65535 \<Longrightarrow> parse_port_fields (map Itoa ps) = Inr ps"
proof (induction ps)
  case (Cons p ps)
  then have p: "1 \<le> p" "p \<le> 65535" by auto
  have "TrimSpace (Itoa p) = Itoa p"
    using p digit_char [OF dec_digits] by (intro TrimSpace_id) (auto simp: Itoa_def)
  moreover have "Itoa p \<noteq> []" using p dec_nonempty by (simp add: Itoa_def)
  moreover have "Atoi (Itoa p) = Some p" using p by (intro Atoi_Itoa) simp_all
  ultimately show ?case using Cons p by simp
qed simp

section \<open>What requests do to a backend\<close>

lemma sim_patterns:
  "parsePattern ''/bad_route'' =
     \<lparr>pt_Text = ''/bad_route'', pt_Method = [], pt_Segments = [Lit ''bad_route''], pt_Multi = False\<rparr>"
  "parsePattern ''/healthz'' =
     \<lparr>pt_Text = ''/healthz'', pt_Method = [], pt_Segments = [Lit ''healthz''], pt_Multi = False\<rparr>"
  "parsePattern ''/toggle-health'' =
     \<lparr>pt_Text = ''/toggle-health'', pt_Method = [], pt_Segments = [Lit ''toggle-health''], pt_Multi = False\<rparr>"
  by (simp_all add: parsePattern_def parse_segment_def)

lemma sim_router:
  assumes "canonical r"
  shows "sim_routes r s =
    (if segments_of r = [''bad_route''] then bad_route (routed_to ''/bad_route'' [] r) s
     else if segments_of r = [''healthz''] then sim_healthz (routed_to ''/healthz'' [] r) s
     else if segments_of r = [''toggle-health''] then toggle_health (routed_to ''/toggle-health'' [] r) s
     else serve_visit (routed_to ''/'' [] r) s)"
proof -
  have ne: "segments_of r \<noteq> []" by (simp add: segments_of_def)
  show ?thesis
    using assms ne
    by (auto simp: sim_routes_def newRouter_def parse_patterns sim_patterns mux_route_canonical
        mux_match_def best_match_def match_one match_root ranks_def routed_to_def)
qed

definition is_toggle :: "request \<Rightarrow> bool" where
  "is_toggle r \<longleftrightarrow> canonical r \<and> segments_of r = [''toggle-health'']"

definition sim_after :: "request list \<Rightarrow> sim_server \<Rightarrow> sim_server" where
  "sim_after rs sv = fold (\<lambda>r sv. fst (sim_routes r sv)) rs sv"

lemma sim_step_health: "sim_healthy (fst (sim_routes r sv)) = (sim_healthy sv \<noteq> is_toggle r)"
proof (cases "canonical r")
  case True
  then show ?thesis
    by (auto simp: sim_router is_toggle_def bad_route_def sim_healthz_def toggle_health_def serve_visit_def Let_def)
next
  case False
  have "fst (sim_routes r sv) = sv"
    unfolding sim_routes_def
    using newRouter_redirect [OF False, of "[[(''/bad_route'', bad_route), (''/'', serve_visit), (''/healthz'', sim_healthz),
       (''/toggle-health'', toggle_health)]]" sv] by auto
  with False show ?thesis by (simp add: is_toggle_def)
qed

lemma sim_after_health:
  "sim_healthy (sim_after rs sv) = (sim_healthy sv \<noteq> odd (length (filter is_toggle rs)))"
  by (induction rs arbitrary: sv) (auto simp: sim_after_def sim_step_health)

text \<open>
  The request that a GET of a URL turns into at the server: the path is escaped on the wire, begins
  with a slash, and is parsed again.
\<close>

definition request_for :: "url \<Rightarrow> request" where
  "request_for v =
     (let p = EscapedPath v;
          wire = (if p = [] \<or> hd p \<noteq> CHR ''/'' then CHR ''/'' # p else p);
          pth = (case unescape wire of None \<Rightarrow> wire | Some q \<Rightarrow> q)
      in \<lparr>Method = ''GET'',
          ReqURL = zero_url\<lparr>url_Path := pth, url_RawPath := (if escape pth EncodePath = wire then [] else wire),
            url_RawQuery := url_RawQuery v\<rparr>,
          ReqHost = url_Host v, ReqTLS = False, RemoteAddr = [], Header = Map.empty, Body = Some (Reader [] None),
          GetBody = None, Pattern = [], PathInstanceID = []\<rparr>)"

text \<open>The status such a GET gets from the backend, which does not speak TLS; a URL without a host gets none.\<close>

definition sim_answer :: "url \<Rightarrow> sim_server \<Rightarrow> nat option" where
  "sim_answer v sv =
     (if url_Scheme v \<noteq> ''http'' \<or> url_Opaque v \<noteq> [] then None
      else case sim_routes (request_for v) sv of
        (sv', pattern, Panic p) \<Rightarrow> None
      | (sv', pattern, Ret ops) \<Rightarrow> Some (net_status ops))"

text \<open>The segments of the path that is probed, or \<open>None\<close> when the mux would redirect the probe.\<close>

definition probed_route :: "probe_config \<Rightarrow> url \<Rightarrow> string list option" where
  "probed_route cfg u =
     (let r = request_for (JoinPath u (ProbePath cfg)) in if canonical r then Some (segments_of r) else None)"

lemma JoinPath_simps [simp]: "url_Scheme (JoinPath u e) = url_Scheme u" "url_Opaque (JoinPath u e) = url_Opaque u"
  by (simp_all add: JoinPath_def Let_def split: option.splits)

lemma sim_answer_good:
  assumes "url_Scheme u = ''http''" and "url_Opaque u = []"
  shows "good (sim_answer (JoinPath u (ProbePath cfg)) sv) =
    (if probed_route cfg u = Some [''healthz''] then sim_healthy sv
     else probed_route cfg u \<notin> {None, Some [''bad_route'']})"
proof (cases "canonical (request_for (JoinPath u (ProbePath cfg)))")
  case True
  then show ?thesis
    using assms
    by (auto simp: sim_answer_def probed_route_def sim_router sim_healthz_def bad_route_def toggle_health_def serve_visit_def
        good_def ops_of_def informational_def Let_def)
next
  case False
  from newRouter_redirect [OF this, of "[[(''/bad_route'', bad_route), (''/'', serve_visit), (''/healthz'', sim_healthz),
      (''/toggle-health'', toggle_health)]]" sv] False assms
  show ?thesis
    by (auto simp: sim_answer_def probed_route_def sim_routes_def good_def ops_of_def informational_def redirect_response_def)
qed

text \<open>The default probe path, on a backend registered without a path of its own.\<close>

lemma probed_healthz:
  assumes "url_Path u \<in> {[], ''/''}" and "url_RawPath u = []" and "ProbePath cfg = ''/healthz''"
  shows "probed_route cfg u = Some [''healthz'']"
proof -
  have base: "EscapedPath u = escape (url_Path u) EncodePath"
    using assms(1,2) by (auto simp: EscapedPath_def)
  have "escape [] EncodePath = []" "escape ''/'' EncodePath = ''/''" "escape ''/healthz'' EncodePath = ''/healthz''"
    "escape ''healthz'' EncodePath = ''healthz''" "clean_rooted ''/healthz'' = ''/healthz''"
    "clean_rooted ''//healthz'' = ''/healthz''" "clean_rooted ''///healthz'' = ''/healthz''"
    "unescape ''/healthz'' = Some ''/healthz''" "unescape ''healthz'' = Some ''healthz''"
    "\<not> ends_in_slash ''/healthz''"
    "cleanPath ''/healthz'' = ''/healthz''" "path_segments ''/healthz'' = [''healthz'']" by code_simp+
  note facts = this
  have "url_Path (JoinPath u ''/healthz'') \<in> {''healthz'', ''/healthz''} \<and> url_RawPath (JoinPath u ''/healthz'') = []"
    using assms(1,2) by (elim insertE emptyE) (simp_all add: JoinPath_def Let_def base facts)
  then have "EscapedPath (JoinPath u ''/healthz'') \<in> {''healthz'', ''/healthz''}"
    by (elim conjE insertE emptyE) (simp_all add: EscapedPath_def facts)
  then have "ReqURL (request_for (JoinPath u ''/healthz'')) =
      zero_url\<lparr>url_Path := ''/healthz'', url_RawQuery := url_RawQuery (JoinPath u ''/healthz'')\<rparr>"
    by (elim insertE emptyE) (simp_all add: request_for_def Let_def facts zero_url_def)
  then have "EscapedPath (ReqURL (request_for (JoinPath u (ProbePath cfg)))) = ''/healthz''"
    unfolding assms(3) by (simp add: EscapedPath_def facts zero_url_def)
  with facts show ?thesis by (simp add: probed_route_def canonical_def segments_of_def)
qed

section \<open>Properties\<close>

text \<open>
  The port list parses back: any list of valid TCP ports, printed with commas between them,
  is what \<open>parsePorts\<close> returns, and \<open>main\<close> then starts one backend per port, in order, with the
  identifiers counting up from the given one.
\<close>

theorem port_list_roundtrip:
  assumes "\<forall>p\<in>set ps. 1 \<le> p \<and> p \<le> 65535" and "ps \<noteq> []"
  shows "parsePorts (join_with '','' (map Itoa ps)) = Inr ps \<and>
    (\<exists>servers. sim_main ptrID (join_with '','' (map Itoa ps)) up = Inr servers \<and> map port servers = ps \<and>
       map instanceID servers = map (\<lambda>i. ptrID + of_nat i) [0..<length ps])"
proof -
  have "CHR '','' \<notin> set x" if "x \<in> set (map Itoa ps)" for x
    using that assms(1) digit_char [OF dec_digits] by (force simp: Itoa_def)
  then have "split_on CHR '','' (join_with '','' (map Itoa ps)) = map Itoa ps"
    using assms(2) by (intro split_on_join_with) auto
  with parse_port_fields_Itoa [OF assms(1)] have parse: "parsePorts (join_with '','' (map Itoa ps)) = Inr ps"
    by (simp add: parsePorts_def)
  have "join_with '','' (map Itoa ps) \<noteq> []"
    using assms(2) dec_nonempty by (cases ps) (auto simp: join_with_def Itoa_def)
  moreover have "map (\<lambda>x. ptrID + word_of_nat (fst x)) (zip [0..<length ps] ps) =
      map (\<lambda>i. ptrID + word_of_nat i) [0..<length ps]"
    by (auto intro: nth_equalityI)
  ultimately show ?thesis using parse assms(2)
    by (simp add: sim_main_def sim_ports_def comp_def split_beta enumerate_eq_zip)
qed

lemma port_list_roundtrip_witness: "parsePorts ''2115,2215'' = Inr [2115, 2215]"
proof -
  have "join_with '','' (map Itoa [2115, 2215]) = ''2115,2215''" by code_simp
  with port_list_roundtrip [of "[2115, 2215]"] show ?thesis by simp
qed

text \<open>
  Ticks of the prober while the backend serves at the URL \<open>u\<close>: before each tick it gets the requests
  \<open>rs\<close>, the probes of the tick before among them, and then answers at the URL that is probed.
\<close>

fun sim_ticks :: "probe_config \<Rightarrow> url \<Rightarrow> (nat \<Rightarrow> string \<Rightarrow> nat option) \<Rightarrow> request list list \<Rightarrow> sim_server
    \<Rightarrow> ((nat \<Rightarrow> string \<Rightarrow> nat option) \<times> (world \<Rightarrow> world)) list" where
  "sim_ticks cfg u elsewhere [] sv = []"
| "sim_ticks cfg u elsewhere (rs # rss) sv =
     (\<lambda>k t. if t = target_of cfg u then sim_answer (JoinPath u (ProbePath cfg)) (sim_after rs sv) else elsewhere k t,
      \<lambda>w. w) #
       sim_ticks cfg u elsewhere rss (sim_after rs sv)"

text \<open>Up or down at each tick: toggled by every \<open>/toggle-health\<close> request before it.\<close>

fun flags :: "request list list \<Rightarrow> bool \<Rightarrow> bool list" where
  "flags [] up = []"
| "flags (rs # rss) up = (let now = (up \<noteq> odd (length (filter is_toggle rs))) in now # flags rss now)"

text \<open>What the prober sees: the switch, if it probes the route that tells it, or else always the same.\<close>

definition seen :: "string list option \<Rightarrow> request list list \<Rightarrow> bool \<Rightarrow> bool list" where
  "seen route rss up =
     (if route = Some [''healthz''] then flags rss up
      else replicate (length rss) (route \<notin> {None, Some [''bad_route'']}))"

lemma sim_ticks_ok:
  assumes "url_Scheme u = ''http''" and "url_Opaque u = []"
  shows "list_all2 (tick_ok reg_ok abs_reg cfg i u) (sim_ticks cfg u elsewhere rss sv)
    (seen (probed_route cfg u) rss (sim_healthy sv))"
proof (induction rss arbitrary: sv)
  case Nil
  then show ?case by (simp add: seen_def)
next
  case (Cons rs rss)
  have "seen (probed_route cfg u) (rs # rss) (sim_healthy sv) =
      good (sim_answer (JoinPath u (ProbePath cfg)) (sim_after rs sv)) #
        seen (probed_route cfg u) rss (sim_healthy (sim_after rs sv))"
    by (simp add: seen_def Let_def sim_after_health sim_answer_good [OF assms])
  with Cons.IH show ?case by (simp add: tick_ok_def)
qed

text \<open>
  C22. The whole loop from a backend's switch to the balancer's routing.  A simulated backend is
  registered at a plain http URL; between the ticks it gets any requests at all.  After any number
  of ticks the registry holds it with the health that the thresholds give for what the prober
  sees.  When the probed path is \<open>/healthz\<close>, as it is by default for a URL without a path, that is
  the switch, flipped by every \<open>/toggle-health\<close> on a canonical path and by no other request: the
  backend is evicted after \<open>UnhealthyThreshold\<close> ticks in a row with the switch off and readmitted
  after \<open>HealthyThreshold\<close> with it on.  On any other path the switch does not matter: the catch-all
  route answers every probe well, and \<open>/bad_route\<close> or a redirect never does.
\<close>

theorem simulated_backend_tracked:
  assumes "reg_ok w" and "thresholds_ok cfg" and "listed_as (abs_reg w) i u h"
    and "url_Scheme u = ''http''" and "url_Opaque u = []"
  shows "(\<exists>w' st'. Run abs_reg SetHealthy cfg (sim_ticks cfg u elsewhere rss sv) (w, Map.empty) = Ret (w', st') \<and>
      reg_ok w' \<and> listed_as (abs_reg w') i u
        (hysteresis (nat (HealthyThreshold cfg)) (nat (UnhealthyThreshold cfg)) h
          (rev (seen (probed_route cfg u) rss (sim_healthy sv))))) \<and>
    (url_Path u \<in> {[], ''/''} \<and> url_RawPath u = [] \<and> ProbePath cfg = ''/healthz'' \<longrightarrow>
      seen (probed_route cfg u) rss (sim_healthy sv) = flags rss (sim_healthy sv))"
proof
  let ?oks = "seen (probed_route cfg u) rss (sim_healthy sv)"
  have "snd (fold (track_with cfg False) ?oks (streak_of (\<lambda>_. None) i, h)) =
      hysteresis (nat (HealthyThreshold cfg)) (nat (UnhealthyThreshold cfg)) h (rev ?oks)"
    using track_hysteresis [of "HealthyThreshold cfg" "UnhealthyThreshold cfg" ?oks h] assms(2)
    by (simp add: thresholds_ok_def streak_of_def)
  with reg.run_of_backend [OF sim_ticks_ok [OF assms(4,5)] assms(1,2) streaks_ok_empty [OF assms(2)] assms(3)]
  show "\<exists>w' st'. Run abs_reg SetHealthy cfg (sim_ticks cfg u elsewhere rss sv) (w, Map.empty) = Ret (w', st') \<and>
      reg_ok w' \<and> listed_as (abs_reg w') i u
        (hysteresis (nat (HealthyThreshold cfg)) (nat (UnhealthyThreshold cfg)) h (rev ?oks))"
    by metis
  show "url_Path u \<in> {[], ''/''} \<and> url_RawPath u = [] \<and> ProbePath cfg = ''/healthz'' \<longrightarrow>
      ?oks = flags rss (sim_healthy sv)"
    using probed_healthz by (simp add: seen_def)
qed

definition sample_sim :: sim_server where
  "sample_sim = \<lparr>instanceID = 1, port = 2115, visits = 0, sim_healthy = True\<rparr>"

lemma toggle_request: "is_toggle (path_request ''GET'' ''/toggle-health'' [])"
proof -
  have "EscapedPath (ReqURL (path_request ''GET'' ''/toggle-health'' [])) = ''/toggle-health''"
    unfolding path_request_def by simp code_simp
  moreover have "cleanPath ''/toggle-health'' = ''/toggle-health''" "path_segments ''/toggle-health'' = [''toggle-health'']"
    by code_simp+
  ultimately show ?thesis by (simp add: is_toggle_def canonical_def segments_of_def)
qed

lemma simulated_backend_tracked_witness:
  "\<exists>w' st'. Run abs_reg SetHealthy sample_probe_config
      (sim_ticks sample_probe_config (mk_url ''http'' ''svc:80'' []) (\<lambda>_ _. None)
        [[], [path_request ''GET'' ''/toggle-health'' []], []] sample_sim) (boot [one_backend], Map.empty) = Ret (w', st') \<and>
    listed_as (abs_reg w') ''a'' (mk_url ''http'' ''svc:80'' []) False"
proof -
  let ?rss = "[[], [path_request ''GET'' ''/toggle-health'' []], []]" and ?u = "mk_url ''http'' ''svc:80'' []"
  have l: "listed_as (abs_reg (boot [one_backend])) ''a'' (mk_url ''http'' ''svc:80'' []) False"
    unfolding one_backend_world(2) by (simp add: listed_as_def one_backend_def)
  have f: "rev (flags ?rss (sim_healthy sample_sim)) = [False, False, True]"
    using toggle_request by (simp add: sample_sim_def Let_def)
  have h: "hysteresis (nat 1) (nat 2) False [False, False, True] = False" by (simp add: hysteresis_Cons)
  have u: "url_Scheme ?u = ''http''" "url_Opaque ?u = []" "url_Path ?u \<in> {[], ''/''} \<and> url_RawPath ?u = [] \<and>
      ProbePath sample_probe_config = ''/healthz''"
    by (simp_all add: mk_url_def zero_url_def sample_probe_config_def withDefaults_def Let_def)
  note tracked = simulated_backend_tracked [OF one_backend_world(1) sample_thresholds(1) l u(1,2), of "\<lambda>_ _. None" ?rss sample_sim]
  have "seen (probed_route sample_probe_config ?u) ?rss (sim_healthy sample_sim) = flags ?rss (sim_healthy sample_sim)"
    using conjunct2 [OF tracked] u(3) by (rule mp)
  with conjunct1 [OF tracked] show ?thesis unfolding sample_thresholds by (metis f h)
qed

end
