(* ===== verification/Runner.thy ===== *)
theory Runner
  imports Simulation
begin

text \<open>
  \<open>scripts/run\<close>: the script that frees the ports, starts three simulated backends, the balancer and
  ten traffic scripts, and waits for them.  Processes, their output and the signal are parameters;
  so is \<open>wait\<close>, the group of \<open>golang.org/x/sync/errgroup\<close> that runs the commands: it returns the
  state afterwards, the first error and whether the group's context has an error by then.
\<close>

section \<open>Freeing ports\<close>

text \<open>The script has copies of the lookup and the killing in \<open>simulate_server\<close>.\<close>

definition run_portPIDs :: "string \<Rightarrow> (string list \<Rightarrow> string option) \<Rightarrow> int \<Rightarrow> int list" where
  "run_portPIDs goos command portNo =
     (if goos = ''windows'' then
        (case command [''cmd'', ''/C'', ''netstat -ano | findstr :'' @ Itoa portNo] of
           None \<Rightarrow> []
         | Some out \<Rightarrow> remdups (List.map_filter (netstat_pid (CHR '':'' # Itoa portNo)) (split_on CHR 0x0A out)))
      else
        (case command [''lsof'', ''-ti'', ''tcp:'' @ Itoa portNo] of
           None \<Rightarrow> []
         | Some out \<Rightarrow> List.map_filter Atoi (Fields out)))"

definition run_freePort ::
    "string \<Rightarrow> (string list \<Rightarrow> string option) \<Rightarrow> int \<Rightarrow> (int \<Rightarrow> 'w \<Rightarrow> bool) \<Rightarrow> (int \<Rightarrow> 'w \<Rightarrow> 'w) \<Rightarrow> int \<Rightarrow> 'w \<Rightarrow> 'w" where
  "run_freePort goos command self finds kill portNo w =
     fold (\<lambda>pid w. if pid = self then w else if \<not> finds pid w then w else kill pid w)
       (run_portPIDs goos command portNo) w"

text \<open>The copies agree, and neither ever kills the process itself.\<close>

lemma run_freePort_copy: "run_freePort = freePort"
  by (intro ext) (simp add: run_freePort_def freePort_def run_portPIDs_def portPIDs_def)

lemma freePort_spares_itself:
  assumes "\<And>pid w. pid \<noteq> self \<Longrightarrow> alive self w \<Longrightarrow> alive self (kill pid w)" and "alive self w"
  shows "alive self (freePort goos command self finds kill portNo w)"
proof -
  have "alive self (fold (\<lambda>pid w. if pid = self then w else if \<not> finds pid w then w else kill pid w) pids w)" for pids
    using assms by (induction pids arbitrary: w) simp_all
  then show ?thesis by (simp add: freePort_def)
qed

section \<open>Processes\<close>

text \<open>The error of a command is passed on unless the context is done.\<close>

definition runProcess :: "string \<Rightarrow> string option \<Rightarrow> bool \<Rightarrow> string option" where
  "runProcess prefix err ctx_done =
     (case err of
        None \<Rightarrow> None
      | Some e \<Rightarrow> if \<not> ctx_done then Some (CHR ''['' # prefix @ ''] exited with error: '' @ e) else None)"

type_synonym launch = "string \<times> string list" \<comment> \<open>prefix and command line\<close>

definition server_launches :: "launch list" where
  "server_launches =
     map (\<lambda>i. (''Server'', [''go'', ''run'', ''scripts/simulate_server/main.go'', ''-id='' @ Itoa i])) [1..3]"

definition proxy_launch :: launch where
  "proxy_launch = (''Proxy'', [''go'', ''run'', ''./cmd/balancer'', ''--config'', ''config.local.yaml''])"

definition traffic_launches :: "launch list" where
  "traffic_launches = map (\<lambda>i. (''Traffic-'' @ Itoa i, [''go'', ''run'', ''scripts/simulate_traffic/main.go''])) [1..10]"

text \<open>
  \<open>main\<close>: the ports, the launches in order, what the log says at the end.  \<open>interrupted\<close> says
  whether the context is done before the traffic starts; then \<open>main\<close> returns without waiting.
\<close>

definition runner_main ::
    "(int \<Rightarrow> 'w \<Rightarrow> 'w) \<Rightarrow> bool \<Rightarrow> (launch list \<Rightarrow> 'w \<Rightarrow> 'w \<times> string option \<times> bool) \<Rightarrow> 'w \<Rightarrow> 'w \<times> launch list \<times> string option" where
  "runner_main free interrupted wait w =
     (let w1 = free 8081 (free 8080 w);
          started = server_launches @ [proxy_launch]
      in if interrupted then (w1, started, None)
         else
           (let launches = started @ traffic_launches;
                (w2, err, ctx_done) = wait launches w1
            in (w2, launches,
                case err of
                  None \<Rightarrow> None
                | Some e \<Rightarrow> if \<not> ctx_done then Some (''[Runner] Error encountered: '' @ e) else None)))"

text \<open>
  \<open>errgroup\<close> documents that the context is cancelled when a function fails and when \<open>Wait\<close> returns;
  so \<open>main\<close> never reports an error.
\<close>

lemma runner_never_reports:
  assumes "\<And>launches w. snd (snd (wait launches w))"
  shows "snd (snd (runner_main free interrupted wait w)) = None"
proof -
  obtain w2 err ctx_done where w: "wait (server_launches @ proxy_launch # traffic_launches) (free 8081 (free 8080 w)) =
      (w2, err, ctx_done)" by (metis surj_pair)
  with assms have ctx_done by (metis snd_conv)
  with w show ?thesis by (simp add: runner_main_def Let_def split: option.splits)
qed

text \<open>The three backends the script starts: healthy, on ports that differ.\<close>

lemma runner_backends:
  "map (\<lambda>i. sim_program (Some i) None None []) [1, 2, 3] =
     map (\<lambda>(i, p). Inr ([\<lparr>instanceID = i, port = p, visits = 0, sim_healthy = True\<rparr>], None)) [(1, 2115), (2, 2215), (3, 2315)]"
  by (simp add: sim_program_def sim_main_def sim_ports_def)

end
