(* ===== verification/RegistryConcurrency.thy ===== *)
theory RegistryConcurrency
  imports Registry
begin

text \<open>
  The registry under real interleaving.  In the theory \<open>Registry\<close> every operation is one step;
  here each goroutine runs its call in the steps the Go code has: taking the mutex, loading the
  published slice, checking it, allocating and copying, writing the copy in place, publishing
  it and unlocking; reports and readers take no lock and go through the slice they loaded one
  element at a time while others work.  Steps of different goroutines interleave freely.  The
  log of the operations in the order they take effect is not part of the code; no step reads it.
  The theorem at the end says that the content of the registry and the results of the writers
  are those of the log run one operation at a time.
\<close>

section \<open>State\<close>

datatype call = CallAdd url u64 | CallRemove string | CallReport string bool | CallList

text \<open>Where a goroutine is in its call, with its local variables.\<close>

datatype pc =
    Idle
  | Waiting call
  | AddEntered url u64
  | AddChecked url u64 slice \<comment> \<open>\<open>cur\<close>\<close>
  | AddCloned url u64 ptr slice \<comment> \<open>\<open>b\<close> and the clone\<close>
  | AddAppended url u64 ptr slice \<comment> \<open>\<open>b\<close> and \<open>updated\<close>\<close>
  | RemEntered string
  | RemChecked string
  | RemCloned string slice
  | RemDeleted string slice
  | Leaving reg_result \<comment> \<open>before the deferred unlock\<close>
  | Scanning string bool slice nat
  | Holding slice "ptr list" \<comment> \<open>a caller of \<open>ListBackends\<close>, with what the slice held when it was returned\<close>
  | Returned reg_result
  | Panicked go_panic

record conc =
  shared :: world
  mutex :: "nat option"
  pcs :: "nat \<Rightarrow> pc"
  oplog :: "(nat \<times> reg_op \<times> reg_result) list"

definition goto :: "nat \<Rightarrow> pc \<Rightarrow> conc \<Rightarrow> conc" where
  "goto t p s = s\<lparr>pcs := (pcs s)(t := p)\<rparr>"

definition effect :: "nat \<Rightarrow> reg_op \<Rightarrow> reg_result \<Rightarrow> conc \<Rightarrow> conc" where
  "effect t op r s = s\<lparr>oplog := oplog s @ [(t, op, r)]\<rparr>"

definition ready :: "pc \<Rightarrow> bool" where
  "ready p \<longleftrightarrow> (case p of Idle \<Rightarrow> True | Holding _ _ \<Rightarrow> True | Returned _ \<Rightarrow> True | _ \<Rightarrow> False)"

text \<open>Identifiers come from the uuid package: never one that is in use.\<close>

definition unused :: "world \<Rightarrow> string \<Rightarrow> bool" where
  "unused w uid \<longleftrightarrow> (\<forall>p. 0 < p \<and> p < brk w \<longrightarrow> InstanceID (cells w p) \<noteq> uid)"

definition exists_error :: "url \<Rightarrow> string + string" where
  "exists_error u = Inl (''url '' @ url_String u @ '' is already registered'')"

section \<open>Steps\<close>

inductive conc_step :: "(nat \<Rightarrow> nat) \<Rightarrow> nat \<Rightarrow> conc \<Rightarrow> conc \<Rightarrow> bool" for grow t where
  start: "ready (pcs s t) \<Longrightarrow> conc_step grow t s (goto t (Waiting c) s)"
| lock_add: "pcs s t = Waiting (CallAdd u wt) \<Longrightarrow> mutex s = None \<Longrightarrow>
    conc_step grow t s (goto t (AddEntered u wt) (s\<lparr>mutex := Some t\<rparr>))"
| add_panic: "pcs s t = AddEntered u wt \<Longrightarrow>
    contains_url (shared s) (url_String u) (listed (shared s)) = Panic p \<Longrightarrow>
    conc_step grow t s (goto t (Panicked p) (s\<lparr>mutex := None\<rparr>))"
| add_exists: "pcs s t = AddEntered u wt \<Longrightarrow>
    contains_url (shared s) (url_String u) (listed (shared s)) = Ret True \<Longrightarrow>
    conc_step grow t s (goto t (Leaving (Registered (exists_error u)))
      (effect t (Register [] u wt) (Registered (exists_error u)) s))"
| add_check: "pcs s t = AddEntered u wt \<Longrightarrow>
    contains_url (shared s) (url_String u) (listed (shared s)) = Ret False \<Longrightarrow>
    conc_step grow t s (goto t (AddChecked u wt (ListBackends (shared s))) s)"
| add_clone: "pcs s t = AddChecked u wt cur \<Longrightarrow> unused (shared s) uid \<Longrightarrow>
    alloc_backend (NewBackend uid (Some u) wt) (shared s) = (w1, b) \<Longrightarrow>
    slice_clone grow 0 (slices w1) cur = (m1, cl) \<Longrightarrow>
    conc_step grow t s (goto t (AddCloned u wt b cl) (s\<lparr>shared := w1\<lparr>slices := m1\<rparr>\<rparr>))"
| add_append: "pcs s t = AddCloned u wt b cl \<Longrightarrow>
    slice_append grow 0 (slices (shared s)) cl b = (m2, updated) \<Longrightarrow>
    conc_step grow t s (goto t (AddAppended u wt b updated) (s\<lparr>shared := (shared s)\<lparr>slices := m2\<rparr>\<rparr>))"
| add_store: "pcs s t = AddAppended u wt b updated \<Longrightarrow> InstanceID (cells (shared s) b) = uid \<Longrightarrow>
    conc_step grow t s (goto t (Leaving (Registered (Inr uid)))
      (effect t (Register uid u wt) (Registered (Inr uid)) (s\<lparr>shared := (shared s)\<lparr>backends := Some updated\<rparr>\<rparr>)))"
| lock_remove: "pcs s t = Waiting (CallRemove i) \<Longrightarrow> mutex s = None \<Longrightarrow>
    conc_step grow t s (goto t (RemEntered i) (s\<lparr>mutex := Some t\<rparr>))"
| remove_panic: "pcs s t = RemEntered i \<Longrightarrow> backends (shared s) = None \<Longrightarrow>
    conc_step grow t s (goto t (Panicked NilDereference) (s\<lparr>mutex := None\<rparr>))"
| remove_absent: "pcs s t = RemEntered i \<Longrightarrow> backends (shared s) = Some cur \<Longrightarrow>
    \<not> list_ex (\<lambda>p. InstanceID (cells (shared s) p) = i) (elems (slices (shared s)) cur) \<Longrightarrow>
    conc_step grow t s (goto t (Leaving (Deregistered False)) (effect t (Deregister i) (Deregistered False) s))"
| remove_check: "pcs s t = RemEntered i \<Longrightarrow> backends (shared s) = Some cur \<Longrightarrow>
    list_ex (\<lambda>p. InstanceID (cells (shared s) p) = i) (elems (slices (shared s)) cur) \<Longrightarrow>
    conc_step grow t s (goto t (RemChecked i) s)"
| remove_clone: "pcs s t = RemChecked i \<Longrightarrow>
    slice_clone grow 0 (slices (shared s)) (ListBackends (shared s)) = (m1, cl) \<Longrightarrow>
    conc_step grow t s (goto t (RemCloned i cl) (s\<lparr>shared := (shared s)\<lparr>slices := m1\<rparr>\<rparr>))"
| remove_delete: "pcs s t = RemCloned i cl \<Longrightarrow>
    slice_delete (\<lambda>p. InstanceID (cells (shared s) p) = i) 0 (slices (shared s)) cl = (m2, updated) \<Longrightarrow>
    conc_step grow t s (goto t (RemDeleted i updated) (s\<lparr>shared := (shared s)\<lparr>slices := m2\<rparr>\<rparr>))"
| remove_store: "pcs s t = RemDeleted i updated \<Longrightarrow>
    conc_step grow t s (goto t (Leaving (Deregistered True))
      (effect t (Deregister i) (Deregistered True) (s\<lparr>shared := (shared s)\<lparr>backends := Some updated\<rparr>\<rparr>)))"
| unlock: "pcs s t = Leaving r \<Longrightarrow> conc_step grow t s (goto t (Returned r) (s\<lparr>mutex := None\<rparr>))"
| report_load: "pcs s t = Waiting (CallReport i v) \<Longrightarrow>
    conc_step grow t s (goto t (Scanning i v (ListBackends (shared s)) 0) s)"
| report_next: "pcs s t = Scanning i v sl k \<Longrightarrow> k < sl_len sl \<Longrightarrow>
    InstanceID (cells (shared s) (elems (slices (shared s)) sl ! k)) \<noteq> i \<Longrightarrow>
    conc_step grow t s (goto t (Scanning i v sl (Suc k)) s)"
| report_store: "pcs s t = Scanning i v sl k \<Longrightarrow> k < sl_len sl \<Longrightarrow> elems (slices (shared s)) sl ! k = p \<Longrightarrow>
    InstanceID (cells (shared s) p) = i \<Longrightarrow>
    conc_step grow t s (goto t (Returned (Reported True)) (effect t (Report i v) (Reported True)
      (s\<lparr>shared := (shared s)\<lparr>cells := (cells (shared s))(p := backend_SetHealthy (cells (shared s) p) v)\<rparr>\<rparr>)))"
| report_end: "pcs s t = Scanning i v sl k \<Longrightarrow> sl_len sl \<le> k \<Longrightarrow>
    conc_step grow t s (goto t (Returned (Reported False)) s)"
| list_load: "pcs s t = Waiting CallList \<Longrightarrow>
    conc_step grow t s (goto t (Holding (ListBackends (shared s)) (listed (shared s))) s)"

definition conc_init :: "world \<Rightarrow> conc" where
  "conc_init w = \<lparr>shared = w, mutex = None, pcs = (\<lambda>_. Idle), oplog = []\<rparr>"

inductive conc_reach :: "(nat \<Rightarrow> nat) \<Rightarrow> world \<Rightarrow> conc \<Rightarrow> bool" for grow w where
  init: "conc_reach grow w (conc_init w)"
| step: "conc_reach grow w s \<Longrightarrow> conc_step grow t s s' \<Longrightarrow> conc_reach grow w s'"

section \<open>The invariant\<close>

fun critical :: "pc \<Rightarrow> bool" where
  "critical (AddEntered u wt) = True"
| "critical (AddChecked u wt cur) = True"
| "critical (AddCloned u wt b cl) = True"
| "critical (AddAppended u wt b up) = True"
| "critical (RemEntered i) = True"
| "critical (RemChecked i) = True"
| "critical (RemCloned i cl) = True"
| "critical (RemDeleted i up) = True"
| "critical (Leaving r) = True"
| "critical _ = False"

text \<open>The slice a goroutine is building, the backend it has not published yet, the slice it reads.\<close>

fun private_of :: "pc \<Rightarrow> slice option" where
  "private_of (AddCloned u wt b cl) = Some cl"
| "private_of (AddAppended u wt b up) = Some up"
| "private_of (RemCloned i cl) = Some cl"
| "private_of (RemDeleted i up) = Some up"
| "private_of _ = None"

fun cell_of :: "pc \<Rightarrow> ptr option" where
  "cell_of (AddCloned u wt b cl) = Some b"
| "cell_of (AddAppended u wt b up) = Some b"
| "cell_of _ = None"

fun held_of :: "pc \<Rightarrow> slice option" where
  "held_of (Scanning i v sl k) = Some sl"
| "held_of (Holding sl ps) = Some sl"
| "held_of _ = None"

definition apart :: "slice \<Rightarrow> slice \<Rightarrow> bool" where
  "apart a b \<longleftrightarrow> sl_cap a = 0 \<or> sl_cap b = 0 \<or> sl_data a \<noteq> sl_data b"

definition no_dup :: "world \<Rightarrow> url \<Rightarrow> bool" where
  "no_dup w u \<longleftrightarrow> (\<forall>p\<in>set (listed w). map_option url_String (URL (cells w p)) \<noteq> Some (url_String u))"

definition new_cell :: "world \<Rightarrow> url \<Rightarrow> u64 \<Rightarrow> ptr \<Rightarrow> bool" where
  "new_cell w u wt b \<longleftrightarrow> 0 < b \<and> b < brk w \<and> b \<notin> set (listed w) \<and> (\<exists>uid. cells w b = NewBackend uid (Some u) wt)"

definition has_id :: "world \<Rightarrow> string \<Rightarrow> bool" where
  "has_id w i \<longleftrightarrow> (\<exists>p\<in>set (listed w). InstanceID (cells w p) = i)"

definition live :: "world \<Rightarrow> slice \<Rightarrow> bool" where
  "live w sl \<longleftrightarrow> slice_ok (slices w) sl \<and> (\<forall>p\<in>set (elems (slices w) sl). 0 < p \<and> p < brk w)"

fun pc_ok :: "world \<Rightarrow> pc \<Rightarrow> bool" where
  "pc_ok w (AddChecked u wt cur) = (cur = ListBackends w \<and> no_dup w u)"
| "pc_ok w (AddCloned u wt b cl) =
     (no_dup w u \<and> new_cell w u wt b \<and> slice_ok (slices w) cl \<and> elems (slices w) cl = listed w)"
| "pc_ok w (AddAppended u wt b up) =
     (no_dup w u \<and> new_cell w u wt b \<and> slice_ok (slices w) up \<and> elems (slices w) up = listed w @ [b])"
| "pc_ok w (RemChecked i) = has_id w i"
| "pc_ok w (RemCloned i cl) = (has_id w i \<and> slice_ok (slices w) cl \<and> elems (slices w) cl = listed w)"
| "pc_ok w (RemDeleted i up) =
     (has_id w i \<and> slice_ok (slices w) up \<and>
      elems (slices w) up = filter (\<lambda>p. InstanceID (cells w p) \<noteq> i) (listed w))"
| "pc_ok w (Scanning i v sl k) = live w sl"
| "pc_ok w (Holding sl ps) = (live w sl \<and> elems (slices w) sl = ps)"
| "pc_ok w (Panicked p) = False"
| "pc_ok w _ = True"

definition ids_ok :: "world \<Rightarrow> bool" where
  "ids_ok w \<longleftrightarrow> inj_on (\<lambda>p. InstanceID (cells w p)) {p. 0 < p \<and> p < brk w}"

definition world_ok :: "world \<Rightarrow> bool" where
  "world_ok w \<longleftrightarrow> reg_ok w \<and> ids_ok w"

definition lock_ok :: "conc \<Rightarrow> bool" where
  "lock_ok s \<longleftrightarrow> (\<forall>t. critical (pcs s t) \<longleftrightarrow> mutex s = Some t)"

definition private_ok :: "world \<Rightarrow> (nat \<Rightarrow> pc) \<Rightarrow> pc \<Rightarrow> bool" where
  "private_ok w ps p \<longleftrightarrow>
     (\<forall>cl. private_of p = Some cl \<longrightarrow> apart cl (ListBackends w) \<and> (\<forall>t sl. held_of (ps t) = Some sl \<longrightarrow> apart cl sl)) \<and>
     (\<forall>b t sl. cell_of p = Some b \<longrightarrow> held_of (ps t) = Some sl \<longrightarrow> b \<notin> set (elems (slices w) sl))"

definition threads_ok :: "conc \<Rightarrow> bool" where
  "threads_ok s \<longleftrightarrow> (\<forall>t. pc_ok (shared s) (pcs s t) \<and> private_ok (shared s) (pcs s) (pcs s t))"

text \<open>The log explains the content and the results; a report's result only says it was carried out.\<close>

definition log_ops :: "conc \<Rightarrow> reg_op list" where
  "log_ops s = map (\<lambda>(t, op, r). op) (oplog s)"

definition explains :: "reg_op \<Rightarrow> reg_result \<Rightarrow> reg_result \<Rightarrow> bool" where
  "explains op r r' \<longleftrightarrow> (case op of Report i v \<Rightarrow> True | _ \<Rightarrow> r = r')"

definition log_ok :: "backend list \<Rightarrow> conc \<Rightarrow> bool" where
  "log_ok bs s \<longleftrightarrow> abs_reg (shared s) = fst (spec_run (log_ops s) bs) \<and>
     list_all2 (\<lambda>(t, op, r) r'. explains op r r') (oplog s) (snd (spec_run (log_ops s) bs))"

definition last_result :: "nat \<Rightarrow> conc \<Rightarrow> reg_result option" where
  "last_result t s = map_of (rev (map (\<lambda>(t, op, r). (t, r)) (oplog s))) t"

definition result_ok :: "conc \<Rightarrow> nat \<Rightarrow> bool" where
  "result_ok s t \<longleftrightarrow>
     (case pcs s t of
        Leaving r \<Rightarrow> last_result t s = Some r
      | Returned r \<Rightarrow> r = Reported False \<or> last_result t s = Some r
      | _ \<Rightarrow> True)"

definition conc_inv :: "backend list \<Rightarrow> conc \<Rightarrow> bool" where
  "conc_inv bs s \<longleftrightarrow> world_ok (shared s) \<and> lock_ok s \<and> threads_ok s \<and> log_ok bs s \<and> (\<forall>t. result_ok s t)"


section \<open>Characteristic facts\<close>

lemma conc_simps [simp]:
  "shared (goto t p s) = shared s" "mutex (goto t p s) = mutex s" "oplog (goto t p s) = oplog s"
  "pcs (goto t p s) = (pcs s)(t := p)"
  "shared (effect t op r s) = shared s" "mutex (effect t op r s) = mutex s" "pcs (effect t op r s) = pcs s"
  "oplog (effect t op r s) = oplog s @ [(t, op, r)]"
  by (simp_all add: goto_def effect_def)

lemma not_critical: "\<not> critical p \<Longrightarrow> private_of p = None \<and> cell_of p = None"
  by (cases p) auto

lemma critical_not_held: "critical p \<Longrightarrow> held_of p = None"
  by (cases p) auto

lemma spec_run_snoc:
  "spec_run (ops @ [op]) bs =
     (fst (spec_step op (fst (spec_run ops bs))),
      snd (spec_run ops bs) @ [snd (spec_step op (fst (spec_run ops bs)))])"
  by (induction ops arbitrary: bs) (auto simp: split_beta Let_def)

lemma log_ops_snoc: "oplog s' = oplog s @ [(t, op, r)] \<Longrightarrow> log_ops s' = log_ops s @ [op]"
  by (simp add: log_ops_def)

lemma log_ok_snoc:
  assumes "log_ok bs s" and "oplog s' = oplog s @ [(t, op, r)]"
    and "abs_reg (shared s') = fst (spec_step op (abs_reg (shared s)))"
    and "explains op r (snd (spec_step op (abs_reg (shared s))))"
  shows "log_ok bs s'"
  using assms by (simp add: log_ok_def log_ops_snoc [OF assms(2)] spec_run_snoc list_all2_appendI)

lemma last_result_snoc:
  "oplog s' = oplog s @ [(t, op, r)] \<Longrightarrow> last_result t' s' = (if t' = t then Some r else last_result t' s)"
  by (simp add: last_result_def)

lemma last_result_same: "oplog s' = oplog s \<Longrightarrow> last_result t s' = last_result t s"
  by (simp add: last_result_def)

text \<open>Results of the other goroutines are not affected by a step.\<close>

lemma result_ok_frame:
  assumes "result_ok s t'" and "t' \<noteq> t" and "pcs s' t' = pcs s t'"
    and "oplog s' = oplog s \<or> (\<exists>op r. oplog s' = oplog s @ [(t, op, r)])"
  shows "result_ok s' t'"
proof -
  from assms(2,4) have "last_result t' s' = last_result t' s"
    by (metis last_result_snoc last_result_same)
  with assms(1,3) show ?thesis by (cases "pcs s t'") (simp_all add: result_ok_def)
qed

lemma ready_not_critical: "ready p \<Longrightarrow> \<not> critical p"
  by (cases p) (simp_all add: ready_def)

lemma step_lock_ok:
  assumes "conc_step grow t s s'" and "lock_ok s"
  shows "lock_ok s'"
proof -
  from assms(2) have l: "critical (pcs s t') \<longleftrightarrow> mutex s = Some t'" for t' by (simp add: lock_ok_def)
  from assms(1) have "critical (pcs s' t') \<longleftrightarrow> mutex s' = Some t'" for t'
    by (cases rule: conc_step.cases)
      (use l [of t] l [of t'] in \<open>simp_all add: ready_not_critical\<close>)
  then show ?thesis by (simp add: lock_ok_def)
qed

lemma step_others:
  assumes "conc_step grow t s s'" and "t' \<noteq> t"
  shows "pcs s' t' = pcs s t'"
  using assms(1) by (cases rule: conc_step.cases) (use assms(2) in simp_all)

lemma step_oplog:
  assumes "conc_step grow t s s'"
  shows "oplog s' = oplog s \<or> (\<exists>op r. oplog s' = oplog s @ [(t, op, r)])"
  using assms by (cases rule: conc_step.cases) simp_all

lemma step_results:
  assumes "conc_step grow t s s'" and "\<forall>t. result_ok s t"
  shows "result_ok s' t'"
proof (cases "t' = t")
  case True
  have "result_ok s t" using assms(2) by blast
  with assms(1) have "result_ok s' t"
    by (cases rule: conc_step.cases) (simp_all add: result_ok_def last_result_def)
  with True show ?thesis by simp
next
  case False
  with result_ok_frame [OF _ False step_others [OF assms(1) False] step_oplog [OF assms(1)]] assms(2)
  show ?thesis by blast
qed


section \<open>Private work\<close>

text \<open>Allocation, and writes to the arrays in \<open>X\<close> only.\<close>

definition extends :: "world \<Rightarrow> world \<Rightarrow> nat set \<Rightarrow> bool" where
  "extends w w' X \<longleftrightarrow> backends w' = backends w \<and> brk w \<le> brk w' \<and> (\<forall>p<brk w. cells w' p = cells w p) \<and>
     abrk (slices w) \<le> abrk (slices w') \<and>
     (\<forall>a<abrk (slices w). a \<notin> X \<longrightarrow> arrays (slices w') a = arrays (slices w) a)"

definition array_of :: "slice \<Rightarrow> nat set" where
  "array_of sl = (if sl_cap sl = 0 then {} else {sl_data sl})"

lemma apart_arrays: "apart a b \<longleftrightarrow> array_of a \<inter> array_of b = {}"
  by (auto simp: apart_def array_of_def)

lemma extends_slice:
  assumes "extends w w' X" and "slice_ok (slices w) sl" and "array_of sl \<inter> X = {}"
  shows "slice_ok (slices w') sl" and "elems (slices w') sl = elems (slices w) sl"
  using assms
  by (cases "sl_cap sl = 0"; force simp: extends_def slice_ok_def elems_def array_of_def)+

lemma extends_live: "extends w w' X \<Longrightarrow> live w sl \<Longrightarrow> array_of sl \<inter> X = {} \<Longrightarrow> live w' sl"
  using extends_slice [of w w' X sl] by (fastforce simp: live_def extends_def)

lemma extends_listed:
  assumes "extends w w' X" and "mem_ok w" and "array_of (ListBackends w) \<inter> X = {}"
  shows "ListBackends w' = ListBackends w" and "listed w' = listed w" and "abs_reg w' = abs_reg w"
    and "mem_ok w'"
proof -
  show lb: "ListBackends w' = ListBackends w" using assms(1) by (simp add: ListBackends_def extends_def)
  from extends_slice(2) [OF assms(1) mem_ok_slice [OF assms(2)] assms(3)] lb
  show l: "listed w' = listed w" by (simp add: listed_def)
  show "abs_reg w' = abs_reg w" unfolding abs_reg_def l
    using assms(1) mem_ok_listed(2) [OF assms(2)] by (auto simp: extends_def)
  show "mem_ok w'"
    using assms(1,2) l lb extends_slice(1) [OF assms(1) mem_ok_slice [OF assms(2)] assms(3)]
    by (auto simp: mem_ok_def extends_def ListBackends_def split: option.splits)
qed

text \<open>The slices others may read: the published one and the ones they hold.\<close>

definition public :: "conc \<Rightarrow> slice \<Rightarrow> bool" where
  "public s sl \<longleftrightarrow> sl = ListBackends (shared s) \<or> (\<exists>t. held_of (pcs s t) = Some sl)"

lemma public_ok:
  assumes "conc_inv bs s" and "public s sl"
  shows "slice_ok (slices (shared s)) sl"
proof -
  from assms(1) have "mem_ok (shared s)" by (simp add: conc_inv_def world_ok_def reg_ok_def)
  moreover have "live (shared s) sl" if "held_of (pcs s t) = Some sl" for t
  proof -
    from assms(1) have "pc_ok (shared s) (pcs s t)" by (simp add: conc_inv_def threads_ok_def)
    with that show ?thesis by (cases "pcs s t") auto
  qed
  ultimately show ?thesis using assms(2) mem_ok_slice by (auto simp: public_def live_def)
qed

lemma held_pc_ok:
  assumes "pc_ok w p" and "\<not> critical p" and "\<And>sl. held_of p = Some sl \<Longrightarrow> live w sl \<Longrightarrow> live w' sl"
    and "\<And>sl. held_of p = Some sl \<Longrightarrow> live w sl \<Longrightarrow> elems (slices w') sl = elems (slices w) sl"
  shows "pc_ok w' p"
  using assms by (cases p) auto

text \<open>The lock holder moves on by private work.\<close>

lemma work_threads:
  assumes ok: "conc_inv bs s" and crit: "critical (pcs s t)" "critical p"
    and ext: "extends (shared s) w' X" and disj: "\<And>sl. public s sl \<Longrightarrow> array_of sl \<inter> X = {}"
    and p: "pc_ok w' p"
    and priv: "\<And>cl sl. private_of p = Some cl \<Longrightarrow> public s sl \<Longrightarrow> apart cl sl"
    and cell: "\<And>b t' sl. cell_of p = Some b \<Longrightarrow> held_of (pcs s t') = Some sl \<Longrightarrow> b \<notin> set (elems (slices (shared s)) sl)"
  shows "threads_ok (goto t p (s\<lparr>shared := w'\<rparr>))"
proof -
  from ok crit(1) have others: "\<not> critical (pcs s t')" if "t' \<noteq> t" for t'
    using that by (auto simp: conc_inv_def lock_ok_def)
  from ok have mem: "mem_ok (shared s)" by (simp add: conc_inv_def world_ok_def reg_ok_def)
  have lb: "ListBackends w' = ListBackends (shared s)"
    by (rule extends_listed(1) [OF ext mem]) (simp add: disj public_def)
  have held: "array_of sl \<inter> X = {}" if "held_of (pcs s t') = Some sl" for t' sl
    using that by (intro disj) (auto simp: public_def)
  have elems: "elems (slices w') sl = elems (slices (shared s)) sl" if "held_of (pcs s t') = Some sl" for t' sl
  proof (rule extends_slice(2) [OF ext _ held [OF that]])
    show "slice_ok (slices (shared s)) sl" using that by (intro public_ok [OF ok]) (auto simp: public_def)
  qed
  have "pc_ok w' (pcs s t')" if "t' \<noteq> t" for t'
  proof (rule held_pc_ok [OF _ others [OF that]])
    show "pc_ok (shared s) (pcs s t')" using ok by (simp add: conc_inv_def threads_ok_def)
  qed (use held elems extends_live [OF ext] in auto)
  moreover have "private_ok w' (pcs (goto t p (s\<lparr>shared := w'\<rparr>))) p"
    using priv cell lb elems critical_not_held [OF crit(2)]
    by (auto simp: private_ok_def public_def split: if_splits)
  moreover have "private_ok w' ps (pcs s t')" if "t' \<noteq> t" for t' ps
    using not_critical [OF others [OF that]] by (simp add: private_ok_def)
  ultimately show ?thesis using p by (auto simp: threads_ok_def)
qed


definition core_ok :: "backend list \<Rightarrow> conc \<Rightarrow> bool" where
  "core_ok bs s \<longleftrightarrow> world_ok (shared s) \<and> threads_ok s \<and> log_ok bs s"

lemma inv_core: "conc_inv bs s \<Longrightarrow> core_ok bs s"
  by (simp add: conc_inv_def core_ok_def)

lemma work_core:
  assumes ok: "conc_inv bs s" and crit: "critical (pcs s t)" "critical p"
    and ext: "extends (shared s) w' X" and disj: "\<And>sl. public s sl \<Longrightarrow> array_of sl \<inter> X = {}"
    and p: "pc_ok w' p" and ids: "ids_ok w'"
    and priv: "\<And>cl sl. private_of p = Some cl \<Longrightarrow> public s sl \<Longrightarrow> apart cl sl"
    and cell: "\<And>b t' sl. cell_of p = Some b \<Longrightarrow> held_of (pcs s t') = Some sl \<Longrightarrow> b \<notin> set (elems (slices (shared s)) sl)"
  shows "core_ok bs (goto t p (s\<lparr>shared := w'\<rparr>))"
proof -
  from ok have mem: "mem_ok (shared s)" and reg: "reg_ok (shared s)" by (simp_all add: conc_inv_def world_ok_def reg_ok_def)
  have "array_of (ListBackends (shared s)) \<inter> X = {}" by (rule disj) (simp add: public_def)
  note l = extends_listed [OF ext mem this]
  have "reg_ok w'" using reg l ext by (simp add: reg_ok_def extends_def)
  with ids l(3) ok work_threads [OF ok crit ext disj p priv cell] show ?thesis
    by (simp add: core_ok_def world_ok_def conc_inv_def log_ok_def log_ops_def)
qed

section \<open>Steps without a write\<close>

lemma listed_live: "mem_ok w \<Longrightarrow> live w (ListBackends w)"
  by (auto simp: live_def mem_ok_def mem_ok_slice simp flip: listed_def)

lemma quiet_threads:
  assumes ok: "conc_inv bs s" and upd: "shared s' = shared s" "pcs s' = (pcs s)(t := p)"
    and p: "pc_ok (shared s) p" "private_of p = None" "cell_of p = None"
    and held: "held_of p = None \<or> held_of p = Some (ListBackends (shared s)) \<or> held_of p = held_of (pcs s t)"
  shows "threads_ok s'"
proof -
  from ok have th: "pc_ok (shared s) (pcs s t')" "private_ok (shared s) (pcs s) (pcs s t')" for t'
    by (simp_all add: conc_inv_def threads_ok_def)
  have "b \<notin> set (listed (shared s))" if "cell_of (pcs s t') = Some b" for t' b
    using th(1) [of t'] that by (cases "pcs s t'") (auto simp: new_cell_def)
  then have cell: "b \<notin> set (elems (slices (shared s)) (ListBackends (shared s)))" if "cell_of (pcs s t') = Some b" for t' b
    using that by (simp add: listed_def)
  have "private_ok (shared s) ((pcs s)(t := p)) (pcs s t')" for t'
    using th(2) [of t'] held cell [of t'] by (auto simp: private_ok_def split: if_splits)
  moreover have "private_ok (shared s) ps p" for ps using p by (simp add: private_ok_def)
  ultimately show ?thesis using th p upd by (auto simp: threads_ok_def)
qed

lemma quiet_core:
  assumes ok: "conc_inv bs s" and upd: "shared s' = shared s" "pcs s' = (pcs s)(t := p)"
    and p: "pc_ok (shared s) p" "private_of p = None" "cell_of p = None"
    and held: "held_of p = None \<or> held_of p = Some (ListBackends (shared s)) \<or> held_of p = held_of (pcs s t)"
    and log: "oplog s' = oplog s \<or> (\<exists>op r. oplog s' = oplog s @ [(t, op, r)] \<and> spec_step op (abs_reg (shared s)) = (abs_reg (shared s), r))"
  shows "core_ok bs s'"
proof -
  from ok have l: "log_ok bs s" by (simp add: conc_inv_def)
  from log have "log_ok bs s'"
  proof
    assume "oplog s' = oplog s"
    with l upd(1) show ?thesis by (simp add: log_ok_def log_ops_def)
  next
    assume "\<exists>op r. oplog s' = oplog s @ [(t, op, r)] \<and> spec_step op (abs_reg (shared s)) = (abs_reg (shared s), r)"
    then obtain op r where o: "oplog s' = oplog s @ [(t, op, r)]"
      "spec_step op (abs_reg (shared s)) = (abs_reg (shared s), r)" by blast
    from l o(1) show ?thesis
      by (rule log_ok_snoc) (simp_all add: o(2) upd(1) explains_def split: reg_op.splits)
  qed
  with ok upd(1) quiet_threads [OF ok upd p held] show ?thesis by (simp add: core_ok_def conc_inv_def)
qed


section \<open>Publishing\<close>

lemma publish_core:
  assumes ok: "conc_inv bs s" and crit: "critical (pcs s t)"
    and up: "slice_ok (slices (shared s)) up"
    and w': "w' = (shared s)\<lparr>backends := Some up\<rparr>" and world: "world_ok w'"
    and eff: "spec_step op (abs_reg (shared s)) = (abs_reg w', r)"
  shows "core_ok bs (goto t (Leaving r) (effect t op r (s\<lparr>shared := w'\<rparr>)))"
proof -
  from ok crit have others: "\<not> critical (pcs s t')" if "t' \<noteq> t" for t'
    using that by (auto simp: conc_inv_def lock_ok_def)
  have "pc_ok w' (pcs s t')" if "t' \<noteq> t" for t'
  proof (rule held_pc_ok [OF _ others [OF that]])
    show "pc_ok (shared s) (pcs s t')" using ok by (simp add: conc_inv_def threads_ok_def)
  qed (simp_all add: w' live_def)
  moreover have "private_ok w' ps (pcs s t')" if "t' \<noteq> t" for t' ps
    using not_critical [OF others [OF that]] by (simp add: private_ok_def)
  ultimately have "threads_ok (goto t (Leaving r) (effect t op r (s\<lparr>shared := w'\<rparr>)))"
    by (auto simp: threads_ok_def private_ok_def)
  moreover have "log_ok bs (goto t (Leaving r) (effect t op r (s\<lparr>shared := w'\<rparr>)))"
  proof (rule log_ok_snoc [where s = s and t = t and op = op and r = r])
    show "log_ok bs s" using ok by (simp add: conc_inv_def)
  qed (simp_all add: eff explains_def split: reg_op.splits)
  ultimately show ?thesis using world by (simp add: core_ok_def)
qed

section \<open>The store of a report\<close>

definition marked :: "world \<Rightarrow> ptr \<Rightarrow> bool \<Rightarrow> world" where
  "marked w p v = w\<lparr>cells := (cells w)(p := backend_SetHealthy (cells w p) v)\<rparr>"

lemma SetHealthy_static [simp]:
  "InstanceID (backend_SetHealthy b v) = InstanceID b" "URL (backend_SetHealthy b v) = URL b"
  by (simp_all add: backend_SetHealthy_def)

lemma marked_simps [simp]:
  "InstanceID (cells (marked w p v) q) = InstanceID (cells w q)" "URL (cells (marked w p v) q) = URL (cells w q)"
  "slices (marked w p v) = slices w" "listed (marked w p v) = listed w" "brk (marked w p v) = brk w"
  "ListBackends (marked w p v) = ListBackends w" "backends (marked w p v) = backends w"
  "q \<noteq> p \<Longrightarrow> cells (marked w p v) q = cells w q"
  by (simp_all add: marked_def listed_def ListBackends_def)

lemma marked_pc_ok: "pc_ok w q \<Longrightarrow> cell_of q \<noteq> Some p \<Longrightarrow> pc_ok (marked w p v) q"
  by (cases q) (auto simp: no_dup_def has_id_def new_cell_def live_def)

lemma marked_world:
  assumes "world_ok w" and "0 < p" and "p < brk w"
  shows "world_ok (marked w p v)" and "abs_reg (marked w p v) = map (mark (InstanceID (cells w p)) v) (abs_reg w)"
proof -
  have mem: "mem_ok w" using assms(1) by (simp add: world_ok_def reg_ok_def)
  have "cells (marked w p v) q = mark (InstanceID (cells w p)) v (cells w q)" if "q \<in> set (listed w)" for q
  proof (cases "q = p")
    case True
    then show ?thesis by (simp add: marked_def mark_def)
  next
    case False
    with assms mem_ok_listed(2,5) [OF mem that] have "InstanceID (cells w q) \<noteq> InstanceID (cells w p)"
      by (auto simp: world_ok_def ids_ok_def inj_on_def)
    with False show ?thesis by (simp add: mark_def)
  qed
  then show abs: "abs_reg (marked w p v) = map (mark (InstanceID (cells w p)) v) (abs_reg w)"
    by (simp add: abs_reg_def)
  have "mem_ok (marked w p v)" using mem by (simp add: mem_ok_def split: option.splits)
  with assms(1) abs show "world_ok (marked w p v)"
    by (simp add: world_ok_def reg_ok_def ids_ok_def comp_def)
qed

lemma report_core:
  assumes ok: "conc_inv bs s" and pc: "pcs s t = Scanning i v sl k" and k: "k < sl_len sl"
    and p: "elems (slices (shared s)) sl ! k = p" and i: "InstanceID (cells (shared s) p) = i"
  shows "core_ok bs (goto t (Returned (Reported True)) (effect t (Report i v) (Reported True) (s\<lparr>shared := marked (shared s) p v\<rparr>)))"
proof -
  from ok have th: "pc_ok (shared s) (pcs s t')" "private_ok (shared s) (pcs s) (pcs s t')" for t'
    by (simp_all add: conc_inv_def threads_ok_def)
  from th(1) [of t] pc have live: "live (shared s) sl" by simp
  with k p have mem: "p \<in> set (elems (slices (shared s)) sl)" by (auto simp: live_def intro: nth_mem)
  with live have range: "0 < p" "p < brk (shared s)" by (auto simp: live_def)
  have cell: "cell_of (pcs s t') \<noteq> Some p" for t'
  proof -
    have "held_of (pcs s t) = Some sl" using pc by simp
    with th(2) [of t'] mem show ?thesis unfolding private_ok_def by blast
  qed
  have w: "world_ok (shared s)" using ok by (simp add: conc_inv_def)
  note m = marked_world [OF w range, of v, unfolded i]
  have "private_ok (marked (shared s) p v) ((pcs s)(t := Returned (Reported True))) (pcs s t')" for t'
    using th(2) [of t'] by (auto simp: private_ok_def split: if_splits)
  then have "threads_ok (goto t (Returned (Reported True)) (effect t (Report i v) (Reported True) (s\<lparr>shared := marked (shared s) p v\<rparr>)))"
    using marked_pc_ok [OF th(1) cell] by (auto simp: threads_ok_def private_ok_def)
  moreover have "log_ok bs (goto t (Returned (Reported True)) (effect t (Report i v) (Reported True) (s\<lparr>shared := marked (shared s) p v\<rparr>)))"
  proof (rule log_ok_snoc [where s = s and t = t and op = "Report i v" and r = "Reported True"])
    show "log_ok bs s" using ok by (simp add: conc_inv_def)
  qed (simp_all add: m(2) explains_def spec_set_healthy_def)
  ultimately show ?thesis using m(1) by (simp add: core_ok_def)
qed


section \<open>Every step keeps the invariant\<close>

lemma slice_append_writes:
  assumes "slice_append grow z m s x = (m', t)"
  shows "abrk m \<le> abrk m'" and "\<forall>a<abrk m. a \<notin> array_of s \<longrightarrow> arrays m' a = arrays m a"
    and "sl_cap t \<noteq> 0 \<Longrightarrow> sl_data t \<in> array_of s \<or> sl_data t = abrk m"
  using assms by (auto simp: slice_append_def alloc_array_def array_of_def Let_def split: if_splits)

lemma apart_fresh: "slice_ok m sl \<Longrightarrow> sl_cap cl = 0 \<or> sl_data cl = abrk m \<Longrightarrow> apart cl sl"
  by (auto simp: apart_def slice_ok_def)

lemma apart_array: "apart cl sl \<Longrightarrow> array_of sl \<inter> array_of cl = {}"
  by (auto simp: apart_arrays)

lemma fresh_only_extends:
  "fresh_only (slices w) m \<Longrightarrow> extends w (w\<lparr>slices := m\<rparr>) {}"
  by (simp add: extends_def fresh_only_def)

lemma inv_here:
  assumes "conc_inv bs s"
  shows "pc_ok (shared s) (pcs s t)" "private_ok (shared s) (pcs s) (pcs s t)" "world_ok (shared s)"
    "mem_ok (shared s)" "reg_ok (shared s)" "ids_ok (shared s)"
  using assms by (simp_all add: conc_inv_def threads_ok_def world_ok_def reg_ok_def)

lemma public_apart: "conc_inv bs s \<Longrightarrow> private_of (pcs s t) = Some cl \<Longrightarrow> public s sl \<Longrightarrow> apart cl sl"
  using inv_here(2) [of bs s t] by (auto simp: private_ok_def public_def)

lemma no_panic:
  assumes "conc_inv bs s"
  shows "contains_url (shared s) str (listed (shared s)) \<noteq> Panic p" and "backends (shared s) \<noteq> None"
proof -
  from inv_here(5) [OF assms] have "\<forall>b\<in>set (abs_reg (shared s)). URL b \<noteq> None" "backends (shared s) \<noteq> None"
    by (simp_all add: reg_ok_def)
  then show "contains_url (shared s) str (listed (shared s)) \<noteq> Panic p" "backends (shared s) \<noteq> None"
    by (simp_all add: contains_url_abs)
qed

lemma held_live: "conc_inv bs s \<Longrightarrow> held_of (pcs s t) = Some sl \<Longrightarrow> live (shared s) sl"
  using inv_here(1) [of bs s t] by (cases "pcs s t") auto

lemma step_add_clone:
  assumes ok: "conc_inv bs s" and pc: "pcs s t = AddChecked u wt cur" and uid: "unused (shared s) uid"
    and b: "alloc_backend (NewBackend uid (Some u) wt) (shared s) = (w1, b)"
    and cl: "slice_clone grow 0 (slices w1) cur = (m1, cl)"
  shows "core_ok bs (goto t (AddCloned u wt b cl) (s\<lparr>shared := w1\<lparr>slices := m1\<rparr>\<rparr>))"
proof -
  let ?w = "shared s" and ?w' = "w1\<lparr>slices := m1\<rparr>"
  from b have w1: "w1 = ?w\<lparr>cells := (cells ?w)(b := NewBackend uid (Some u) wt), brk := Suc b\<rparr>" "b = brk ?w"
    by (auto simp: alloc_backend_def)
  note here = inv_here [OF ok]
  from here(1) [of t] pc have cur: "cur = ListBackends ?w" and nd: "no_dup ?w u" by simp_all
  from cl w1 cur have cl': "slice_clone grow 0 (slices ?w) (ListBackends ?w) = (m1, cl)" by simp
  note c = slice_clone_facts [OF mem_ok_slice [OF here(4)] cl']
  have ext: "extends ?w ?w' {}" using c(3) w1 by (auto simp: extends_def fresh_only_def)
  note l = extends_listed [OF ext here(4)]
  have same: "cells ?w' p = cells ?w p" if "p \<in> set (listed ?w)" for p
    using mem_ok_listed(2) [OF here(4) that] w1 by simp
  have "new_cell ?w' u wt b"
    using mem_ok_listed [OF here(4)] w1 l(2) by (auto simp: new_cell_def)
  moreover have "no_dup ?w' u" using nd l(2) same by (simp add: no_dup_def)
  ultimately have p: "pc_ok ?w' (AddCloned u wt b cl)" using c(1,2) l(2) by (simp add: listed_def)
  have "inj_on (\<lambda>p. InstanceID (cells ?w' p)) (insert b {p. 0 < p \<and> p < b})"
    using here(6) uid w1 by (auto simp: ids_ok_def unused_def inj_on_def)
  moreover have "{p. 0 < p \<and> p < brk ?w'} = insert b {p. 0 < p \<and> p < b}"
    using w1 mem_ok_listed(3) [OF here(4)] by auto
  ultimately have ids: "ids_ok ?w'" by (simp add: ids_ok_def)
  show ?thesis
  proof (rule work_core [OF ok _ _ ext _ p ids])
    show "apart cl' sl" if "private_of (AddCloned u wt b cl) = Some cl'" "public s sl" for cl' sl
      using that apart_fresh [OF public_ok [OF ok that(2)] c(4)] by simp
    show "b' \<notin> set (elems (slices ?w) sl)"
      if "cell_of (AddCloned u wt b cl) = Some b'" "held_of (pcs s t') = Some sl" for b' t' sl
      using held_live [OF ok that(2)] that(1) w1 by (auto simp: live_def)
  qed (simp_all add: pc)
qed

text \<open>Work on the private slice only.\<close>

lemma work_slices:
  assumes ok: "conc_inv bs s" and crit: "critical (pcs s t)" "critical p"
    and ext: "extends (shared s) ((shared s)\<lparr>slices := m\<rparr>) X"
    and disj: "\<And>sl. public s sl \<Longrightarrow> array_of sl \<inter> X = {}"
    and p: "listed ((shared s)\<lparr>slices := m\<rparr>) = listed (shared s) \<Longrightarrow> pc_ok ((shared s)\<lparr>slices := m\<rparr>) p"
    and priv: "\<And>cl sl. private_of p = Some cl \<Longrightarrow> public s sl \<Longrightarrow> apart cl sl"
    and cell: "cell_of p = cell_of (pcs s t)"
  shows "core_ok bs (goto t p (s\<lparr>shared := (shared s)\<lparr>slices := m\<rparr>\<rparr>))"
proof -
  note here = inv_here [OF ok]
  have "array_of (ListBackends (shared s)) \<inter> X = {}" by (rule disj) (simp add: public_def)
  from extends_listed(2) [OF ext here(4) this] have l: "listed ((shared s)\<lparr>slices := m\<rparr>) = listed (shared s)" .
  have "ids_ok ((shared s)\<lparr>slices := m\<rparr>)" using here(6) by (simp add: ids_ok_def)
  moreover have "b \<notin> set (elems (slices (shared s)) sl)" if "cell_of p = Some b" "held_of (pcs s t') = Some sl" for b t' sl
    using here(2) [of t] that cell by (auto simp: private_ok_def)
  ultimately show ?thesis using priv by (intro work_core [OF ok crit ext disj p [OF l]]) auto
qed

lemma step_add_append:
  assumes ok: "conc_inv bs s" and pc: "pcs s t = AddCloned u wt b cl"
    and up: "slice_append grow 0 (slices (shared s)) cl b = (m2, updated)"
  shows "core_ok bs (goto t (AddAppended u wt b updated) (s\<lparr>shared := (shared s)\<lparr>slices := m2\<rparr>\<rparr>))"
proof -
  from inv_here(1) [OF ok, of t] pc
  have cl: "no_dup (shared s) u" "new_cell (shared s) u wt b" "slice_ok (slices (shared s)) cl"
    "elems (slices (shared s)) cl = listed (shared s)" by simp_all
  note a = slice_append_facts [OF cl(3) up] and w = slice_append_writes [OF up]
  have ap: "apart cl sl" if "public s sl" for sl using public_apart [OF ok _ that, of t] pc by simp
  show ?thesis
  proof (rule work_slices [OF ok, where X = "array_of cl"])
    show "extends (shared s) ((shared s)\<lparr>slices := m2\<rparr>) (array_of cl)" using w(1,2) by (simp add: extends_def)
    show "array_of sl \<inter> array_of cl = {}" if "public s sl" for sl using ap [OF that] by (rule apart_array)
    show "pc_ok ((shared s)\<lparr>slices := m2\<rparr>) (AddAppended u wt b updated)"
      if "listed ((shared s)\<lparr>slices := m2\<rparr>) = listed (shared s)"
      using that cl a by (simp add: no_dup_def new_cell_def)
    show "apart cl' sl" if "private_of (AddAppended u wt b updated) = Some cl'" "public s sl" for cl' sl
      using that(1) w(3) ap [OF that(2)] public_ok [OF ok that(2)]
      by (auto simp: apart_def array_of_def slice_ok_def split: if_splits)
  qed (simp_all add: pc)
qed

lemma step_remove_clone:
  assumes ok: "conc_inv bs s" and pc: "pcs s t = RemChecked i"
    and cl: "slice_clone grow 0 (slices (shared s)) (ListBackends (shared s)) = (m1, cl)"
  shows "core_ok bs (goto t (RemCloned i cl) (s\<lparr>shared := (shared s)\<lparr>slices := m1\<rparr>\<rparr>))"
proof -
  note here = inv_here [OF ok]
  note c = slice_clone_facts [OF mem_ok_slice [OF here(4)] cl]
  show ?thesis
  proof (rule work_slices [OF ok, where X = "{}"])
    show "extends (shared s) ((shared s)\<lparr>slices := m1\<rparr>) {}" using c(3) by (rule fresh_only_extends)
    show "pc_ok ((shared s)\<lparr>slices := m1\<rparr>) (RemCloned i cl)"
      if "listed ((shared s)\<lparr>slices := m1\<rparr>) = listed (shared s)"
      using that c(1,2) here(1) [of t] pc by (simp add: has_id_def listed_def)
    show "apart cl' sl" if "private_of (RemCloned i cl) = Some cl'" "public s sl" for cl' sl
      using that(1) apart_fresh [OF public_ok [OF ok that(2)] c(4)] by simp
  qed (simp_all add: pc)
qed

lemma step_remove_delete:
  assumes ok: "conc_inv bs s" and pc: "pcs s t = RemCloned i cl"
    and up: "slice_delete (\<lambda>p. InstanceID (cells (shared s) p) = i) 0 (slices (shared s)) cl = (m2, updated)"
  shows "core_ok bs (goto t (RemDeleted i updated) (s\<lparr>shared := (shared s)\<lparr>slices := m2\<rparr>\<rparr>))"
proof -
  from inv_here(1) [OF ok, of t] pc have cl: "has_id (shared s) i" "slice_ok (slices (shared s)) cl"
    "elems (slices (shared s)) cl = listed (shared s)" by simp_all
  note d = slice_delete_facts [OF cl(2) up]
  have ap: "apart cl sl" if "public s sl" for sl using public_apart [OF ok _ that, of t] pc by simp
  have cap: "sl_cap updated = sl_cap cl"
    using up by (auto simp: slice_delete_def split: option.splits prod.splits)
  have w: "arrays m2 a = arrays (slices (shared s)) a" if "a \<notin> array_of cl" for a
  proof (cases "sl_cap cl = 0")
    case True
    with cl(2) have "elems (slices (shared s)) cl = []" by (simp add: slice_ok_def elems_def)
    with up show ?thesis by (simp add: slice_delete_def)
  next
    case False
    with that d(5) show ?thesis by (simp add: array_of_def)
  qed
  show ?thesis
  proof (rule work_slices [OF ok, where X = "array_of cl"])
    show "extends (shared s) ((shared s)\<lparr>slices := m2\<rparr>) (array_of cl)" using w d(4) by (simp add: extends_def)
    show "array_of sl \<inter> array_of cl = {}" if "public s sl" for sl using ap [OF that] by (rule apart_array)
    show "pc_ok ((shared s)\<lparr>slices := m2\<rparr>) (RemDeleted i updated)"
      if "listed ((shared s)\<lparr>slices := m2\<rparr>) = listed (shared s)"
      using that cl d(1,2) by (simp add: has_id_def)
    show "apart cl' sl" if "private_of (RemDeleted i updated) = Some cl'" "public s sl" for cl' sl
      using that(1) ap [OF that(2)] cap d(3) by (simp add: apart_def)
  qed (simp_all add: pc)
qed


lemma world_ok_publish:
  assumes "world_ok w" and "slice_ok (slices w) up" and "distinct (elems (slices w) up)"
    and "\<forall>p\<in>set (elems (slices w) up). 0 < p \<and> p < brk w \<and> URL (cells w p) \<noteq> None"
  shows "world_ok (w\<lparr>backends := Some up\<rparr>)"
    and "abs_reg (w\<lparr>backends := Some up\<rparr>) = map (cells w) (elems (slices w) up)"
proof -
  have l: "listed (w\<lparr>backends := Some up\<rparr>) = elems (slices w) up" by (simp add: listed_def ListBackends_def)
  then show abs: "abs_reg (w\<lparr>backends := Some up\<rparr>) = map (cells w) (elems (slices w) up)" by (simp add: abs_reg_def)
  have "mem_ok w" using assms(1) by (simp add: world_ok_def reg_ok_def)
  then have "mem_ok (w\<lparr>backends := Some up\<rparr>)" using assms(2-4) l by (simp add: mem_ok_def)
  moreover have "inj_on (\<lambda>p. InstanceID (cells w p)) (set (elems (slices w) up))"
    using assms(1,4) by (auto simp: world_ok_def ids_ok_def elim!: inj_on_subset)
  then have "distinct (map InstanceID (map (cells w) (elems (slices w) up)))"
    using assms(3) by (simp add: distinct_map comp_def)
  ultimately show "world_ok (w\<lparr>backends := Some up\<rparr>)"
    using assms(1,4) abs by (simp add: world_ok_def reg_ok_def ids_ok_def)
qed

lemma listed_url: "reg_ok w \<Longrightarrow> p \<in> set (listed w) \<Longrightarrow> URL (cells w p) \<noteq> None"
  by (auto simp: reg_ok_def abs_reg_def)

lemma step_add_store:
  assumes ok: "conc_inv bs s" and pc: "pcs s t = AddAppended u wt b up" and uid: "InstanceID (cells (shared s) b) = uid"
  shows "core_ok bs (goto t (Leaving (Registered (Inr uid)))
    (effect t (Register uid u wt) (Registered (Inr uid)) (s\<lparr>shared := (shared s)\<lparr>backends := Some up\<rparr>\<rparr>)))"
proof -
  note here = inv_here [OF ok]
  from here(1) [of t] pc uid have up: "no_dup (shared s) u" "slice_ok (slices (shared s)) up"
    "elems (slices (shared s)) up = listed (shared s) @ [b]" and b: "0 < b" "b < brk (shared s)" "b \<notin> set (listed (shared s))"
    "cells (shared s) b = NewBackend uid (Some u) wt" by (auto simp: new_cell_def)
  have "world_ok ((shared s)\<lparr>backends := Some up\<rparr>) \<and>
    abs_reg ((shared s)\<lparr>backends := Some up\<rparr>) = abs_reg (shared s) @ [NewBackend uid (Some u) wt]"
    using world_ok_publish [OF here(3) up(2)] up(3) b mem_ok_listed [OF here(4)] listed_url [OF here(5)]
    by (auto simp: abs_reg_def)
  moreover have "\<not> (\<exists>b\<in>set (abs_reg (shared s)). map_option url_String (URL b) = Some (url_String u))"
    using up(1) by (auto simp: no_dup_def abs_reg_def)
  ultimately show ?thesis
    by (intro publish_core [OF ok _ up(2) refl]) (simp_all add: pc spec_add_def)
qed

lemma step_remove_store:
  assumes ok: "conc_inv bs s" and pc: "pcs s t = RemDeleted i up"
  shows "core_ok bs (goto t (Leaving (Deregistered True))
    (effect t (Deregister i) (Deregistered True) (s\<lparr>shared := (shared s)\<lparr>backends := Some up\<rparr>\<rparr>)))"
proof -
  note here = inv_here [OF ok]
  from here(1) [of t] pc have up: "has_id (shared s) i" "slice_ok (slices (shared s)) up"
    "elems (slices (shared s)) up = filter (\<lambda>p. InstanceID (cells (shared s) p) \<noteq> i) (listed (shared s))" by auto
  have "world_ok ((shared s)\<lparr>backends := Some up\<rparr>) \<and>
    abs_reg ((shared s)\<lparr>backends := Some up\<rparr>) = filter (\<lambda>b. InstanceID b \<noteq> i) (abs_reg (shared s))"
    using world_ok_publish [OF here(3) up(2)] up(3) mem_ok_listed [OF here(4)] listed_url [OF here(5)]
    by (auto simp: abs_reg_filter)
  moreover have "\<exists>b\<in>set (abs_reg (shared s)). InstanceID b = i"
    using up(1) by (auto simp: has_id_def abs_reg_def)
  ultimately show ?thesis
    by (intro publish_core [OF ok _ up(2) refl]) (simp_all add: pc spec_remove_def)
qed

text \<open>The four checks that a writer makes after it has taken the lock.\<close>

lemma check_core:
  assumes ok: "conc_inv bs s"
  shows "pcs s t = AddEntered u wt \<Longrightarrow> contains_url (shared s) (url_String u) (listed (shared s)) = Ret True \<Longrightarrow>
      core_ok bs (goto t (Leaving (Registered (exists_error u))) (effect t (Register [] u wt) (Registered (exists_error u)) s))"
    and "pcs s t = AddEntered u wt \<Longrightarrow> contains_url (shared s) (url_String u) (listed (shared s)) = Ret False \<Longrightarrow>
      core_ok bs (goto t (AddChecked u wt (ListBackends (shared s))) s)"
    and "pcs s t = RemEntered i \<Longrightarrow> \<not> has_id (shared s) i \<Longrightarrow>
      core_ok bs (goto t (Leaving (Deregistered False)) (effect t (Deregister i) (Deregistered False) s))"
    and "pcs s t = RemEntered i \<Longrightarrow> has_id (shared s) i \<Longrightarrow> core_ok bs (goto t (RemChecked i) s)"
proof -
  assume at: "pcs s t = AddEntered u wt" "contains_url (shared s) (url_String u) (listed (shared s)) = Ret True"
  from contains_url_Ret_iff [OF inv_here(5) [OF ok] at(2)]
  have "spec_step (Register [] u wt) (abs_reg (shared s)) = (abs_reg (shared s), Registered (exists_error u))"
    by (simp add: spec_add_def exists_error_def)
  with at show "core_ok bs (goto t (Leaving (Registered (exists_error u)))
      (effect t (Register [] u wt) (Registered (exists_error u)) s))"
    by (intro quiet_core [OF ok]) auto
next
  assume at: "pcs s t = AddEntered u wt" "contains_url (shared s) (url_String u) (listed (shared s)) = Ret False"
  from contains_url_Ret_iff [OF inv_here(5) [OF ok] at(2)] have "no_dup (shared s) u"
    by (auto simp: no_dup_def abs_reg_def)
  with at show "core_ok bs (goto t (AddChecked u wt (ListBackends (shared s))) s)"
    by (intro quiet_core [OF ok]) auto
next
  assume at: "pcs s t = RemEntered i" "\<not> has_id (shared s) i"
  then have "spec_step (Deregister i) (abs_reg (shared s)) = (abs_reg (shared s), Deregistered False)"
    by (auto simp: spec_remove_def filter_id_conv has_id_def abs_reg_def)
  with at show "core_ok bs (goto t (Leaving (Deregistered False)) (effect t (Deregister i) (Deregistered False) s))"
    by (intro quiet_core [OF ok]) auto
next
  assume "pcs s t = RemEntered i" "has_id (shared s) i"
  then show "core_ok bs (goto t (RemChecked i) s)" by (intro quiet_core [OF ok]) auto
qed

lemma has_id_current:
  "backends w = Some cur \<Longrightarrow> has_id w i \<longleftrightarrow> list_ex (\<lambda>p. InstanceID (cells w p) = i) (elems (slices w) cur)"
  by (auto simp: has_id_def listed_def ListBackends_def list_ex_eq_bex)

lemma step_core:
  assumes "conc_step grow t s s'" and ok: "conc_inv bs s"
  shows "core_ok bs s'"
  using assms(1)
proof (cases rule: conc_step.cases)
  case (add_exists u wt)
  with check_core(1) [OF ok add_exists(2,3)] show ?thesis by simp
next
  case (add_check u wt)
  with check_core(2) [OF ok add_check(2,3)] show ?thesis by simp
next
  case (remove_absent i cur)
  with check_core(3) [OF ok remove_absent(2)] show ?thesis by (simp add: has_id_current)
next
  case (remove_check i cur)
  with check_core(4) [OF ok remove_check(2)] show ?thesis by (simp add: has_id_current)
next
  case (add_panic u wt p)
  with no_panic(1) [OF ok] show ?thesis by blast
next
  case (remove_panic i)
  with no_panic(2) [OF ok] show ?thesis by blast
next
  case (report_load i v)
  with listed_live [OF inv_here(4) [OF ok]] show ?thesis by (intro quiet_core [OF ok]) auto
next
  case list_load
  with listed_live [OF inv_here(4) [OF ok]] show ?thesis
    by (intro quiet_core [OF ok]) (auto simp: listed_def)
next
  case (report_next i v sl k)
  with held_live [OF ok, of t] show ?thesis by (intro quiet_core [OF ok]) auto
next
  case (report_store i v sl k p)
  with report_core [OF ok report_store(2-4)] show ?thesis by (simp add: marked_def)
next
  case (add_clone u wt cur uid w1 b m1 cl)
  with step_add_clone [OF ok add_clone(2-5)] show ?thesis by simp
next
  case (add_append u wt b cl m2 updated)
  with step_add_append [OF ok add_append(2,3)] show ?thesis by simp
next
  case (add_store u wt b updated uid)
  with step_add_store [OF ok add_store(2,3)] show ?thesis by simp
next
  case (remove_clone i m1 cl)
  with step_remove_clone [OF ok remove_clone(2,3)] show ?thesis by simp
next
  case (remove_delete i cl m2 updated)
  with step_remove_delete [OF ok remove_delete(2,3)] show ?thesis by simp
next
  case (remove_store i updated)
  with step_remove_store [OF ok remove_store(2)] show ?thesis by simp
qed (rule quiet_core [OF ok], auto)+

lemma conc_step_inv: "conc_step grow t s s' \<Longrightarrow> conc_inv bs s \<Longrightarrow> conc_inv bs s'"
  using step_core step_lock_ok step_results unfolding conc_inv_def core_ok_def by metis

lemma conc_init_inv: "reg_ok w \<Longrightarrow> ids_ok w \<Longrightarrow> conc_inv (abs_reg w) (conc_init w)"
  by (simp add: conc_inv_def conc_init_def world_ok_def lock_ok_def threads_ok_def private_ok_def log_ok_def
      log_ops_def result_ok_def)

lemma conc_reach_inv: "conc_reach grow w s \<Longrightarrow> reg_ok w \<Longrightarrow> ids_ok w \<Longrightarrow> conc_inv (abs_reg w) s"
  by (induction rule: conc_reach.induct) (auto intro: conc_init_inv conc_step_inv)


section \<open>Progress\<close>

text \<open>The steps a call has left: the phase, and inside a scan the elements not yet looked at.\<close>

fun steps_left :: "pc \<Rightarrow> nat \<times> nat" where
  "steps_left (Waiting c) = (6, 0)"
| "steps_left (AddEntered u wt) = (5, 0)"
| "steps_left (AddChecked u wt cur) = (4, 0)"
| "steps_left (AddCloned u wt b cl) = (3, 0)"
| "steps_left (AddAppended u wt b up) = (2, 0)"
| "steps_left (RemEntered i) = (5, 0)"
| "steps_left (RemChecked i) = (4, 0)"
| "steps_left (RemCloned i cl) = (3, 0)"
| "steps_left (RemDeleted i up) = (2, 0)"
| "steps_left (Leaving r) = (1, 0)"
| "steps_left (Scanning i v sl k) = (1, Suc (sl_len sl) - k)"
| "steps_left _ = (0, 0)"

lemma step_decreases:
  assumes "conc_step grow t s s'" and "\<not> ready (pcs s t)"
  shows "(steps_left (pcs s' t), steps_left (pcs s t)) \<in> less_than <*lex*> less_than"
  using assms(1) by (cases rule: conc_step.cases) (use assms(2) in \<open>simp_all add: ready_def\<close>)

lemma unused_exists: "\<exists>uid. unused w uid"
proof -
  have "finite ((\<lambda>p. InstanceID (cells w p)) ` {p. 0 < p \<and> p < brk w})" by simp
  from ex_new_if_finite [OF infinite_UNIV_listI this]
  obtain uid where "uid \<notin> (\<lambda>p. InstanceID (cells w p)) ` {p. 0 < p \<and> p < brk w}" by blast
  then have "unused w uid" by (auto simp: unused_def)
  then show ?thesis by blast
qed

lemma add_entered_steps:
  assumes "pcs s t = AddEntered u wt"
  shows "\<exists>s'. conc_step grow t s s'"
proof (cases "contains_url (shared s) (url_String u) (listed (shared s))")
  case (Panic p)
  from conc_step.add_panic [OF assms this] show ?thesis by (rule exI)
next
  case (Ret d)
  then show ?thesis
    by (cases d) (auto intro: conc_step.add_exists [OF assms] conc_step.add_check [OF assms])
qed

lemma remove_entered_steps:
  assumes ok: "conc_inv bs s" and at: "pcs s t = RemEntered i"
  shows "\<exists>s'. conc_step grow t s s'"
proof -
  from no_panic(2) [OF ok] obtain cur where "backends (shared s) = Some cur" by blast
  with conc_step.remove_check [OF at] conc_step.remove_absent [OF at] show ?thesis by (metis (no_types))
qed

lemma holder_steps:
  assumes ok: "conc_inv bs s" and "critical (pcs s t)"
  shows "\<exists>s'. conc_step grow t s s'"
proof (cases "pcs s t")
  case (AddEntered u wt)
  then show ?thesis by (rule add_entered_steps)
next
  case (AddChecked u wt cur)
  obtain uid where uid: "unused (shared s) uid" using unused_exists by blast
  obtain w1 b where b: "alloc_backend (NewBackend uid (Some u) wt) (shared s) = (w1, b)" by fastforce
  obtain m1 cl where "slice_clone grow 0 (slices w1) cur = (m1, cl)" by fastforce
  from conc_step.add_clone [OF AddChecked uid b this] show ?thesis by (rule exI)
next
  case (AddCloned u wt b cl)
  obtain m2 up where "slice_append grow 0 (slices (shared s)) cl b = (m2, up)" by fastforce
  from conc_step.add_append [OF AddCloned this] show ?thesis by (rule exI)
next
  case (AddAppended u wt b up)
  from conc_step.add_store [OF this refl] show ?thesis by (rule exI)
next
  case (RemEntered i)
  with ok show ?thesis by (rule remove_entered_steps)
next
  case (RemChecked i)
  obtain m1 cl where "slice_clone grow 0 (slices (shared s)) (ListBackends (shared s)) = (m1, cl)" by fastforce
  from conc_step.remove_clone [OF RemChecked this] show ?thesis by (rule exI)
next
  case (RemCloned i cl)
  obtain m2 up where "slice_delete (\<lambda>p. InstanceID (cells (shared s) p) = i) 0 (slices (shared s)) cl = (m2, up)"
    by fastforce
  from conc_step.remove_delete [OF RemCloned this] show ?thesis by (rule exI)
next
  case (RemDeleted i up)
  from conc_step.remove_store [OF this] show ?thesis by (rule exI)
next
  case (Leaving r)
  from conc_step.unlock [OF this] show ?thesis by (rule exI)
qed (use assms(2) in simp_all)

lemma reader_steps:
  assumes "pcs s t = Scanning i v sl k"
  shows "\<exists>s'. conc_step grow t s s'"
proof (cases "k < sl_len sl")
  case True
  show ?thesis
  proof (cases "InstanceID (cells (shared s) (elems (slices (shared s)) sl ! k)) = i")
    case hit: True
    from conc_step.report_store [OF assms True refl hit] show ?thesis by (rule exI)
  next
    case False
    from conc_step.report_next [OF assms True this] show ?thesis by (rule exI)
  qed
next
  case False
  then have "sl_len sl \<le> k" by simp
  from conc_step.report_end [OF assms this] show ?thesis by (rule exI)
qed

lemma waiting_steps:
  assumes "pcs s t = Waiting c" and "mutex s = None"
  shows "\<exists>s'. conc_step grow t s s'"
proof (cases c)
  case (CallAdd u wt)
  with assms conc_step.lock_add [of s t u wt grow] show ?thesis by (intro exI) simp
next
  case (CallRemove i)
  with assms conc_step.lock_remove [of s t i grow] show ?thesis by (intro exI) simp
next
  case (CallReport i v)
  with assms conc_step.report_load [of s t i v grow] show ?thesis by (intro exI) simp
next
  case CallList
  with assms conc_step.list_load [of s t grow] show ?thesis by (intro exI) simp
qed

lemma thread_steps:
  assumes ok: "conc_inv bs s"
  shows "(\<exists>s'. conc_step grow t s s') \<or> (\<exists>t'. mutex s = Some t' \<and> t' \<noteq> t \<and> (\<exists>s'. conc_step grow t' s s'))"
proof (cases "critical (pcs s t)")
  case True
  with holder_steps [OF ok] show ?thesis by blast
next
  case False
  show ?thesis
  proof (cases "mutex s")
    case None
    consider "ready (pcs s t)" | c where "pcs s t = Waiting c" | i v sl k where "pcs s t = Scanning i v sl k"
      using inv_here(1) [OF ok, of t] False by (cases "pcs s t") (auto simp: ready_def)
    then show ?thesis
    proof cases
      case 1
      from conc_step.start [OF this, of grow CallList] show ?thesis by blast
    next
      case 2
      from waiting_steps [OF this None] show ?thesis by blast
    next
      case 3
      from reader_steps [OF this] show ?thesis by blast
    qed
  next
    case (Some t')
    from ok Some have "critical (pcs s t')" by (simp add: conc_inv_def lock_ok_def)
    with False have "t' \<noteq> t" by auto
    with Some holder_steps [OF ok \<open>critical (pcs s t')\<close>] show ?thesis by blast
  qed
qed


section \<open>Properties\<close>

lemma ids_ok_boot:
  assumes "reg_ok (boot bs)"
  shows "ids_ok (boot bs)"
proof -
  have "{p. 0 < p \<and> p < brk (boot bs)} = set (listed (boot bs))" by (auto simp: boot_facts)
  with assms show ?thesis
    by (simp add: ids_ok_def reg_ok_def abs_reg_def distinct_map comp_def flip: map_map)
      (simp add: inj_on_def)
qed

lemma boot_reach_inv:
  assumes "distinct (map InstanceID bs)" and "\<forall>b\<in>set bs. URL b \<noteq> None" and "conc_reach grow (boot bs) s"
  shows "conc_inv bs s"
proof -
  from assms(1,2) have "reg_ok (boot bs)" by (simp add: reg_ok_boot)
  from conc_reach_inv [OF assms(3) this ids_ok_boot [OF this]] show ?thesis by (simp add: boot_facts)
qed

text \<open>
  C1. The registry is linearizable.  However the steps of any number of goroutines interleave,
  from a registry built on distinct identified backends: the content is what the logged
  operations give when run one at a time, each entry being written by its own call between its
  start and its return; registrations and removals return what they return in that sequential
  run; a slice obtained from \<open>ListBackends\<close> keeps the elements it had; and no call panics.
\<close>

theorem registry_linearizable:
  assumes "distinct (map InstanceID bs)" and "\<forall>b\<in>set bs. URL b \<noteq> None" and "conc_reach grow (boot bs) s"
  shows "abs_reg (shared s) = fst (spec_run (log_ops s) bs) \<and>
    list_all2 (\<lambda>(t, op, r) r'. explains op r r') (oplog s) (snd (spec_run (log_ops s) bs)) \<and>
    (\<forall>t r. pcs s t = Returned r \<longrightarrow> r = Reported False \<or> last_result t s = Some r) \<and>
    (\<forall>t sl ps. pcs s t = Holding sl ps \<longrightarrow> elems (slices (shared s)) sl = ps) \<and>
    (\<forall>t p. pcs s t \<noteq> Panicked p)"
proof -
  note ok = boot_reach_inv [OF assms]
  have "r = Reported False \<or> last_result t s = Some r" if "pcs s t = Returned r" for t r
  proof -
    from ok have "result_ok s t" by (simp add: conc_inv_def)
    with that show ?thesis by (simp add: result_ok_def)
  qed
  moreover have "elems (slices (shared s)) sl = ps" if "pcs s t = Holding sl ps" for t sl ps
    using inv_here(1) [OF ok, of t] that by simp
  moreover have "pcs s t \<noteq> Panicked p" for t p using inv_here(1) [OF ok, of t] by auto
  ultimately show ?thesis using ok by (simp add: conc_inv_def log_ok_def)
qed

definition listing_state :: conc where
  "listing_state = goto 0 (Holding (ListBackends (boot sample_backends)) [1, 2, 3])
     (goto 0 (Waiting CallList) (conc_init (boot sample_backends)))"

lemma sample_distinct: "distinct (map InstanceID sample_backends)" "\<forall>b\<in>set sample_backends. URL b \<noteq> None"
  using sample_ok(1) by (simp_all add: reg_ok_boot)

lemma listing_reached: "conc_reach grow (boot sample_backends) listing_state"
proof -
  let ?s = "goto 0 (Waiting CallList) (conc_init (boot sample_backends))"
  have "ready (pcs (conc_init (boot sample_backends)) 0)" by (simp add: conc_init_def ready_def)
  from conc_reach.step [OF conc_reach.init conc_step.start [OF this]] have 1: "conc_reach grow (boot sample_backends) ?s" .
  have "pcs ?s 0 = Waiting CallList" by simp
  from conc_reach.step [OF 1 conc_step.list_load [OF this]]
  have "conc_reach grow (boot sample_backends)
      (goto 0 (Holding (ListBackends (shared ?s)) (listed (shared ?s))) ?s)" .
  moreover have "listed (shared ?s) = [1, 2, 3]"
    by (simp add: conc_init_def boot_facts sample_backends_def upt_conv_Cons)
  moreover have "shared ?s = boot sample_backends" by (simp add: conc_init_def)
  ultimately show ?thesis by (simp add: listing_state_def)
qed

lemma registry_linearizable_witness:
  "abs_reg (shared listing_state) = sample_backends \<and>
   elems (slices (shared listing_state)) (ListBackends (boot sample_backends)) = [1, 2, 3]"
proof -
  note r = registry_linearizable [OF sample_distinct listing_reached [of "\<lambda>n. n"]]
  have "pcs listing_state 0 = Holding (ListBackends (boot sample_backends)) [1, 2, 3]" by (simp add: listing_state_def)
  with r have "elems (slices (shared listing_state)) (ListBackends (boot sample_backends)) = [1, 2, 3]" by blast
  moreover have "log_ops listing_state = []" by (simp add: listing_state_def log_ops_def conc_init_def)
  with r have "abs_reg (shared listing_state) = sample_backends" by simp
  ultimately show ?thesis by simp
qed

text \<open>
  C7. Calls on the registry end and never deadlock.  In every reachable state each step of a call
  in progress leaves it fewer steps (six in all for a writer, one per element for a report), other goroutines' steps leave that number alone, and whenever a goroutine cannot step
  it is waiting for a holder of the mutex that can.
\<close>

theorem registry_calls_finish:
  assumes "distinct (map InstanceID bs)" and "\<forall>b\<in>set bs. URL b \<noteq> None" and "conc_reach grow (boot bs) s"
    and "\<not> ready (pcs s t)"
  shows "(\<forall>s'. conc_step grow t s s' \<longrightarrow> (steps_left (pcs s' t), steps_left (pcs s t)) \<in> less_than <*lex*> less_than) \<and>
    (\<forall>t' s'. t' \<noteq> t \<longrightarrow> conc_step grow t' s s' \<longrightarrow> steps_left (pcs s' t) = steps_left (pcs s t)) \<and>
    ((\<exists>s'. conc_step grow t s s') \<or>
     (\<exists>t'. mutex s = Some t' \<and> t' \<noteq> t \<and> (\<exists>s'. conc_step grow t' s s')))"
proof (intro conjI allI impI)
  show "(steps_left (pcs s' t), steps_left (pcs s t)) \<in> less_than <*lex*> less_than" if "conc_step grow t s s'" for s'
    by (rule step_decreases [OF that assms(4)])
  show "steps_left (pcs s' t) = steps_left (pcs s t)" if "t' \<noteq> t" "conc_step grow t' s s'" for t' s'
    using step_others [OF that(2)] that(1) by simp
qed (rule thread_steps [OF boot_reach_inv [OF assms(1-3)]])

lemma registry_calls_finish_witness:
  "(\<exists>s'. conc_step (\<lambda>n. n) 0 (goto 0 (Waiting CallList) (conc_init (boot sample_backends))) s') \<or>
   (\<exists>t'. mutex (goto 0 (Waiting CallList) (conc_init (boot sample_backends))) = Some t')"
proof -
  have "ready (pcs (conc_init (boot sample_backends)) 0)" by (simp add: conc_init_def ready_def)
  from conc_reach.step [OF conc_reach.init conc_step.start [OF this]]
  have 1: "conc_reach (\<lambda>n. n) (boot sample_backends) (goto 0 (Waiting CallList) (conc_init (boot sample_backends)))" .
  have "\<not> ready (pcs (goto 0 (Waiting CallList) (conc_init (boot sample_backends))) 0)" by (simp add: ready_def)
  from registry_calls_finish [OF sample_distinct 1 this] show ?thesis by blast
qed

end
