(* ===== verification/Spec2Isabelle.thy ===== *)
theory Spec2Isabelle
  imports Program Runner RegistryConcurrency
begin

text \<open>
  Verification library for golancer, an HTTP load balancer written in Go.

  \<^bold>\<open>The program.\<close>  Three servers run in one process (\<open>internal/bootstrap\<close>).  The balancer
  (\<open>internal/proxy\<close>) forwards each request to a backend chosen by the configured selector
  (\<open>internal/balancer\<close>) and fails over to another choice while backends are unreachable.  The
  management API (\<open>internal/handlers\<close>) adds, lists and removes backends in the registry
  (\<open>internal/backend\<close>), whose content is replaced as a whole by every change, so readers need no
  lock.  The prober (\<open>internal/health\<close>) checks every backend periodically and reports its health
  to the registry; selectors only choose healthy backends.  The third server exposes metrics.
  Everything is set up from a validated configuration (\<open>internal/config\<close>).

  \<^bold>\<open>The theories\<close>, each importing the ones whose code it calls.

  \<^item> Prelude: Go integers as machine words, the result of a call (a value or a panic), shared
    facts on lists and words.  GoSlice: slices as headers over shared arrays.  GoUrl, GoPath,
    Netip, HttpTypes: what the program uses of \<open>net/url\<close>, \<open>path\<close>, \<open>net/netip\<close> and \<open>net/http\<close>.
    GoNumbers: \<open>strconv\<close> and \<open>time.ParseDuration\<close>.
  \<^item> Domain (\<open>domain/backend.go\<close>); RegistryApi, the registry as its clients see it: operations on
    a list of backends, and the locales \<open>backend_lister\<close>, \<open>backend_manager\<close>, \<open>health_registry\<close>,
    \<open>backend_registry\<close>; Registry (\<open>backend/registry.go\<close>), the operations on a heap of backends, a
    store of arrays and the atomic pointer, proved to implement that interface, with snapshots
    that never change; RegistryConcurrency, the same operations taken apart into their steps,
    with the mutex, interleaved freely among goroutines.
  \<^item> Selectors (\<open>random.go\<close>, \<open>hash.go\<close>, \<open>least_connections.go\<close>, \<open>types.go\<close>) and RoundRobin
    (\<open>round_robin.go\<close>), under the locale \<open>selector\<close>; the counter is a 32-bit word that wraps.
  \<^item> Forwarding, ReverseProxy, Proxy (\<open>proxy/proxy.go\<close>): the client address and the forwarding
    headers, the outbound request as \<open>httputil.ReverseProxy\<close> makes it, the handler with its
    failover loop as a function and as an inductive relation.  Balancers: the four selectors
    behind the adapters, under the locale \<open>pool_balancer\<close>.  Failover: which failovers reach a
    backend that answers.
  \<^item> Prober (\<open>health/prober.go\<close>): probe, thresholds, rounds and ticks, over any registry that
    keeps the laws of \<open>health_registry\<close>.
  \<^item> Config (\<open>config/types.go\<close>, \<open>validate.go\<close>, \<open>load.go\<close>): settings, loading, validation and the
    conversions.
  \<^item> Handlers (\<open>handlers/backends.go\<close>, \<open>health.go\<close>), Router (\<open>server/server.go\<close> over
    \<open>http.ServeMux\<close>), Metrics (\<open>metrics/common.go\<close>), Middleware (\<open>bootstrap/middleware.go\<close>), Servers
    (\<open>bootstrap/server.go\<close>, \<open>runner.go\<close>, \<open>handlers/prometheus.go\<close>): the handlers on the pool, the
    routes, the middleware around them, the three servers and the startup.  Lifecycle
    (\<open>startServer\<close> and the waiting of \<open>Run\<close>): listening and shutdown as a step relation.
  \<^item> System: the whole program as a step relation, from the state \<open>bootstrap_Run\<close> leaves through
    requests to both servers and ticks of the prober, in any order; every step refines steps of
    the pool (\<open>pool_step\<close>: the registry's operations and changes of connection counts), which are
    also what the other goroutines may do while a request or a round waits for the network.
  \<^item> Program: the entry point (\<open>cmd/balancer\<close>), from the command line to the state in which the servers
    are served and waited for, and the script that sends one request (\<open>scripts/simulate_traffic\<close>).
  \<^item> Simulation (\<open>scripts/simulate_server\<close>): the backends the repository is tried out with, their
    routes, ports and startup, and the loop they form with the prober.  Runner (\<open>scripts/run\<close>):
    the script that starts everything.

  \<^bold>\<open>State.\<close>  The record \<open>world\<close> is the registry with the memory behind it; \<open>proxy_state\<close> adds
  the environment (the selectors' counter and generator, and whatever lies outside) and the
  history of attempts, which the code does not have and no step reads.  In RegistryConcurrency
  the log of operations plays that part.  Records and functions keep the names of the code; a
  Go pointer to a backend is an address, 0 being nil; an error is a value; a panic is \<open>Panic\<close>.

  \<^bold>\<open>What is shown.\<close>  Registry: every interleaving of calls is explained by running the logged
  operations one at a time, calls end without deadlock, held slices and pointers stay valid.
  Selectors: the weighted choice and its exact odds, stickiness, minimal load, fairness of the
  rotation, and exactly when they fail to find a backend at the counter's wrap.  Proxy: how every request ends, the body
  each attempt carries, connection counts restored on every way out, when failover reaches a
  live backend and when it cannot; client addresses that an untrusted peer cannot forge.
  Prober: each round refines an automaton per backend, and health follows the last runs of
  results.  Config: validation accepts exactly the valid configurations, these start well, and
  durations are read at the length that is written.  Servers: the routes, who can change the pool,
  readiness that predicts the next request, body limits, the counted status and its labels.  Program: how it
  starts, and the state it starts in.  Lifecycle: no exit in the middle of a
  drain, and an end after a signal.  System: every reachable state is well formed,
  nothing crashes, a registered backend gets traffic from its threshold of good probes on, a
  removed one gets none.  Simulation: the switch of a simulated backend decides, through the
  prober's thresholds, whether it is routed to, provided that \<open>/healthz\<close> is what is probed.  Several properties state where the code departs
  from what it documents.

  \<^bold>\<open>Parameters\<close>, code that is not in the repository: the JSON and YAML decoders, \<open>url.Parse\<close>, the
  random generator, uuids (fresh by assumption where needed), the
  growth of slices, \<open>errgroup\<close>, the processes of the operating system, the network round trip
  and the HTTP client of the prober (either may change the rest of the state while it takes
  time), the client going away, and the Prometheus client, of which startup relies on
  \<open>registry_laws\<close>: a new registry is empty, takes collectors that do not clash and refuses one it
  already holds.  Loops
  are total functions with a measure, or bounded by the list they walk; there is no fuel.

  \<^bold>\<open>Not modelled.\<close>  The parsing of the command line (the values given to the flags are arguments);
  logging; time (ticks of the prober and the deadline of a drain are steps, timeouts are outcomes
  of the network); protocol upgrades beyond the header checks, trailers and flushing of proxied
  responses and informational ones of a backend, the declared length of a body; what the metrics
  endpoint prints.  The Go interfaces and the structs that only hold
  one (of the selectors, the management and health handlers, the middleware) have no definition of
  their own: the interfaces are the locales above, and what they hold is an argument.
\<close>

end
